theory Spec2Isabelle
  imports Complex_Main "HOL-Library.AList" "HOL-Library.Multiset"
begin

unbundle bit_operations_syntax

section \<open>JavaScript values used by the lighting core\<close>

text \<open>
  A JavaScript number is a finite value, an infinity or \<open>NaN\<close>.  A finite value is a real:
  every double is one, so what holds for all reals holds for all doubles.  Device indices
  and packed command words, which the source only ever holds as integers, are integers.
  An exception thrown by the source is a value of \<open>js_error\<close> on the left of a sum.
\<close>

datatype js_error = TypeError | Error string

datatype number = Finite real | PosInfinity | NegInfinity | NaN

text \<open>\<open>Math.round\<close> on a finite value: the nearest integer, a tie going towards plus
  infinity.  It leaves the infinities and \<open>NaN\<close> as they are.\<close>

definition Math_round :: "real \<Rightarrow> int" where
  "Math_round x = \<lfloor>x + 1 / 2\<rfloor>"

fun Math_round_number :: "number \<Rightarrow> number" where
  "Math_round_number (Finite x) = Finite (of_int (Math_round x))"
| "Math_round_number x = x"

text \<open>\<open>Math.min\<close>, \<open>Math.max\<close> and the comparison \<open>x > y\<close>: \<open>NaN\<close> as an argument
  makes the first two \<open>NaN\<close> and the comparison false.\<close>

fun Math_min :: "number \<Rightarrow> number \<Rightarrow> number" where
  "Math_min NaN y = NaN"
| "Math_min x NaN = NaN"
| "Math_min NegInfinity y = NegInfinity"
| "Math_min x NegInfinity = NegInfinity"
| "Math_min PosInfinity y = y"
| "Math_min x PosInfinity = x"
| "Math_min (Finite x) (Finite y) = Finite (min x y)"

fun Math_max :: "number \<Rightarrow> number \<Rightarrow> number" where
  "Math_max NaN y = NaN"
| "Math_max x NaN = NaN"
| "Math_max PosInfinity y = PosInfinity"
| "Math_max x PosInfinity = PosInfinity"
| "Math_max NegInfinity y = y"
| "Math_max x NegInfinity = x"
| "Math_max (Finite x) (Finite y) = Finite (max x y)"

fun js_greater :: "number \<Rightarrow> number \<Rightarrow> bool" where
  "js_greater NaN y = False"
| "js_greater x NaN = False"
| "js_greater NegInfinity y = False"
| "js_greater x PosInfinity = False"
| "js_greater PosInfinity y = True"
| "js_greater x NegInfinity = True"
| "js_greater (Finite x) (Finite y) = (y < x)"

text \<open>
  Arithmetic rounds its exact result to the nearest double: a significand of 53 bits, a
  tie going to the even significand, subnormal steps of 2 to the power -1074, and an
  infinity from 2 to the power 1024 on.  \<open>pow2 e\<close> is 2 to the power \<open>e\<close>;
  \<open>ulp_exponent x\<close> is the exponent of the spacing of the doubles around \<open>x\<close>.
\<close>

definition round_half_even :: "real \<Rightarrow> int" where
  "round_half_even x =
     (let f = \<lfloor>x\<rfloor>; r = x - of_int f
      in if r < 1 / 2 then f else if 1 / 2 < r then f + 1 else if even f then f else f + 1)"

definition pow2 :: "int \<Rightarrow> real" where
  "pow2 e = (if 0 \<le> e then 2 ^ nat e else 1 / 2 ^ nat (- e))"

definition ulp_exponent :: "real \<Rightarrow> int" where
  "ulp_exponent x = max (\<lfloor>log 2 \<bar>x\<bar>\<rfloor> - 52) (- 1074)"

definition binary64 :: "real \<Rightarrow> real" where
  "binary64 x =
     (if x = 0 then 0
      else of_int (round_half_even (x / pow2 (ulp_exponent x))) * pow2 (ulp_exponent x))"

definition toDouble :: "real \<Rightarrow> number" where
  "toDouble x =
     (if 2 ^ 1024 \<le> \<bar>binary64 x\<bar> then (if 0 < x then PosInfinity else NegInfinity)
      else Finite (binary64 x))"

text \<open>\<open>x / d\<close> and \<open>x * d\<close> for a finite constant \<open>d\<close> greater than zero, the only
  arithmetic the controller does on a brightness.\<close>

fun dividedBy :: "number \<Rightarrow> real \<Rightarrow> number" where
  "dividedBy (Finite x) d = toDouble (x / d)"
| "dividedBy x d = x"

fun multipliedBy :: "number \<Rightarrow> real \<Rightarrow> number" where
  "multipliedBy (Finite x) d = toDouble (x * d)"
| "multipliedBy x d = x"

text \<open>\<open>Number.prototype.toString(radix)\<close> on integers (of a size printed in full, without
  an exponent): lower-case digits, most significant first, a leading minus sign for a
  negative value.\<close>

definition digit_char :: "nat \<Rightarrow> char" where
  "digit_char d = ''0123456789abcdefghijklmnopqrstuvwxyz'' ! d"

function toDigits :: "nat \<Rightarrow> nat \<Rightarrow> string" where
  "toDigits radix n =
     (if radix < 2 \<or> n < radix then [digit_char n]
      else toDigits radix (n div radix) @ [digit_char (n mod radix)])"
  by pat_completeness auto
termination
  by (relation "measure snd") auto

declare toDigits.simps [simp del]

definition Number_toString :: "int \<Rightarrow> nat \<Rightarrow> string" where
  "Number_toString k radix =
     (if k < 0 then CHR ''-'' # toDigits radix (nat (- k)) else toDigits radix (nat k))"

definition toUpperCase_char :: "char \<Rightarrow> char" where
  "toUpperCase_char c =
     (case map_of (zip ''abcdefghijklmnopqrstuvwxyz'' ''ABCDEFGHIJKLMNOPQRSTUVWXYZ'') c of
        Some u \<Rightarrow> u | None \<Rightarrow> c)"

definition toUpperCase :: "string \<Rightarrow> string" where
  "toUpperCase s = map toUpperCase_char s"


text \<open>The bitwise or of two numbers: both operands and the result are 32-bit signed.\<close>

definition js_or :: "int \<Rightarrow> int \<Rightarrow> int" where
  "js_or previous current = signed_take_bit 31 (previous OR current)"

section \<open>Command codec (\<open>parserUtils\<close>)\<close>

definition upad :: "string \<Rightarrow> nat \<Rightarrow> js_error + string" where
  "upad n targetLength =
     (if length n > targetLength then Inl (Error ''target length smaller than length of n!'')
      else Inr (replicate (targetLength - length n) CHR ''0'' @ n))"

text \<open>\<open>args.reduce\<close> without an initial value throws a \<open>TypeError\<close> on an empty
  argument list and returns a single argument unchanged.\<close>

definition packEvent :: "int list \<Rightarrow> js_error + string" where
  "packEvent args =
     (case args of
        [] \<Rightarrow> Inl TypeError
      | a # rest \<Rightarrow>
          (let val = foldl js_or a rest;
               hex = toUpperCase (Number_toString val 16)
           in case upad hex 4 of
                Inl e \<Rightarrow> Inl e
              | Inr phex \<Rightarrow> Inr (''0x'' @ phex)))"

definition ESET_INSTANCE :: "real \<Rightarrow> int" where
  "ESET_INSTANCE instance = push_bit 8 (Math_round instance AND 0xFF)"

definition ESET_INDEX :: "real \<Rightarrow> int" where
  "ESET_INDEX index = push_bit 8 ((Math_round index - 1) AND 0xFF)"

definition ESET_BRIGHTNESS :: "real \<Rightarrow> int" where
  "ESET_BRIGHTNESS brightness = Math_round brightness AND 0xFF"

definition ESET_LEVEL :: "real \<Rightarrow> int" where
  "ESET_LEVEL level = Math_round level AND 0xF"

text \<open>\<open>ESET_BRIGHTNESS\<close> on an argument that may be infinite or \<open>NaN\<close>: the bitwise
  \<open>&\<close> reads an infinity and \<open>NaN\<close> as 0.\<close>

definition ESET_BRIGHTNESS_number :: "number \<Rightarrow> int" where
  "ESET_BRIGHTNESS_number brightness =
     (case brightness of Finite x \<Rightarrow> ESET_BRIGHTNESS x | _ \<Rightarrow> 0)"

section \<open>The controller (\<open>RVLightingController\<close>)\<close>

text \<open>
  One registry entry, as \<open>lightObjectHandler\<close> builds it.  The registry is a
  JavaScript \<open>Map\<close>: an association list in insertion order, where setting an existing
  key replaces the value in place.  Every entry is stored under its own \<open>index\<close>.
\<close>

record light =
  light_name :: string
  light_index :: int
  light_instance :: int
  light_command :: int
  light_room :: int
  roomName :: string
  isDimmer :: bool
  currentBrightness :: number

text \<open>A member of \<open>scene.lights\<close> and a stored scene.\<close>

record light_state =
  state_index :: int
  state_name :: string
  state_brightness :: number
  state_room :: int

record scene =
  scene_name :: string
  scene_created :: string
  scene_room :: "int option"
  scene_lights :: "light_state list"

record schedule_event =
  event_time :: string
  event_days :: "string list"
  event_scene :: "string option"
  event_action :: string

record schedule =
  schedule_name :: string
  enabled :: bool
  schedule_created :: string
  events :: "schedule_event list"

text \<open>
  The fields of the class, followed by the part of the browser the class acts on:
  \<open>sent\<close> is every message handed to \<open>sendWSData\<close>, oldest first;
  \<open>intervals\<close> is the list of live \<open>setInterval\<close> timers, each with its handle and
  the schedule name its callback checks; \<open>nextHandle\<close> is the handle the next
  \<open>setInterval\<close> returns (timer handles are integers greater than zero).
\<close>

record controller =
  lights :: "(int \<times> light) list"
  scenes :: "string \<rightharpoonup> scene"
  schedules :: "string \<rightharpoonup> schedule"
  activeSchedules :: "string set"
  scheduleIntervals :: "string \<rightharpoonup> nat"
  isInitialized :: bool
  sent :: "string list"
  intervals :: "(nat \<times> string) list"
  nextHandle :: nat

text \<open>The constructor; the two stores come from \<open>loadSavedData\<close>.  Writing the
  stores back (\<open>saveToStorage\<close>, which swallows its own errors) and the console log
  change nothing the operations below read, and are left out.\<close>

definition newController :: "(string \<rightharpoonup> scene) \<Rightarrow> (string \<rightharpoonup> schedule) \<Rightarrow> controller" where
  "newController savedScenes savedSchedules =
     \<lparr>lights = [], scenes = savedScenes, schedules = savedSchedules, activeSchedules = {},
      scheduleIntervals = Map.empty, isInitialized = False, sent = [], intervals = [],
      nextHandle = 1\<rparr>"

definition sendWSData :: "string \<Rightarrow> controller \<Rightarrow> controller" where
  "sendWSData data c = c\<lparr>sent := sent c @ [data]\<rparr>"

subsection \<open>Manual control\<close>

text \<open>\<open>Math.max(0, Math.min(100, brightness))\<close>.\<close>

definition clampBrightness :: "number \<Rightarrow> number" where
  "clampBrightness brightness = Math_max (Finite 0) (Math_min (Finite 100) brightness)"

text \<open>The command string built inside the \<open>try\<close> block from the clamped brightness;
  \<open>Inl\<close> is an exception on the way, which the \<open>catch\<close> turns into \<open>false\<close>.\<close>

definition brightnessCommand :: "light \<Rightarrow> int \<Rightarrow> number \<Rightarrow> js_error + string" where
  "brightnessCommand light lightIndex brightness =
     (if isDimmer light then
        (let scaledBrightness = Math_round_number (multipliedBy (dividedBy brightness 100) 200)
         in case packEvent [ESET_INSTANCE (of_int lightIndex),
                            ESET_BRIGHTNESS_number scaledBrightness] of
              Inl e \<Rightarrow> Inl e
            | Inr packed \<Rightarrow>
                Inr (''HMSEVENT=ENEWMARDIMMERPARSER_SET_BRIGHTNESS_NONSCALED|'' @ packed))
      else
        (let level = (if js_greater brightness (Finite 0) then 1 else 0)
         in case packEvent [ESET_INSTANCE (of_int lightIndex), ESET_LEVEL level] of
              Inl e \<Rightarrow> Inl e
            | Inr packed \<Rightarrow> Inr (''HMSEVENT=ENEWMARDIMMERPARSER_TURN_ON_OFF|'' @ packed)))"

definition setLightBrightness :: "int \<Rightarrow> number \<Rightarrow> controller \<Rightarrow> bool \<times> controller" where
  "setLightBrightness lightIndex brightness c =
     (case map_of (lights c) lightIndex of
        None \<Rightarrow> (False, c)
      | Some light \<Rightarrow>
          (case brightnessCommand light lightIndex (clampBrightness brightness) of
             Inl e \<Rightarrow> (False, c)
           | Inr command \<Rightarrow>
               (True,
                (sendWSData command c)
                  \<lparr>lights := AList.update lightIndex
                               (light\<lparr>currentBrightness := clampBrightness brightness\<rparr>)
                               (lights c)\<rparr>)))"



subsection \<open>Scenes\<close>

text \<open>
  \<open>getCurrentBrightness\<close> sends the status request and settles on the reply or on the
  5-second timer, whichever comes first: \<open>reply\<close> is \<open>Some level\<close> for a reply, with
  \<open>level\<close> what \<open>parseInt\<close> makes of it (\<open>NaN\<close> for a reply that does not start with
  digits), \<open>None\<close> for the timeout.
\<close>

definition getCurrentBrightness ::
  "int \<Rightarrow> number option \<Rightarrow> controller \<Rightarrow> (js_error + number) \<times> controller" where
  "getCurrentBrightness lightIndex reply c =
     (let c1 = sendWSData (''NEWMAR_DIMMER_BRIGHTNESS['' @ Number_toString lightIndex 10 @ '']'') c
      in case reply of
           None \<Rightarrow> (Inl (Error ''Brightness request timeout''), c1)
         | Some level \<Rightarrow>
             (Inr level,
              case map_of (lights c1) lightIndex of
                None \<Rightarrow> c1
              | Some light \<Rightarrow>
                  c1\<lparr>lights := AList.update lightIndex
                                 (light\<lparr>currentBrightness := level\<rparr>) (lights c1)\<rparr>))"

text \<open>The loop of \<open>saveScene\<close> over the registry values; a rejected brightness request
  is caught and the cached level is used.\<close>

fun captureLightStates ::
  "light list \<Rightarrow> int option \<Rightarrow> (int \<Rightarrow> number option) \<Rightarrow> controller
     \<Rightarrow> light_state list \<times> controller" where
  "captureLightStates [] roomFilter replies c = ([], c)"
| "captureLightStates (light # rest) roomFilter replies c =
     (if roomFilter \<noteq> None \<and> Some (light_room light) \<noteq> roomFilter
      then captureLightStates rest roomFilter replies c
      else
        (let c1 = snd (getCurrentBrightness (light_index light) (replies (light_index light)) c);
             brightness = (case map_of (lights c1) (light_index light) of
                             Some l \<Rightarrow> currentBrightness l
                           | None \<Rightarrow> currentBrightness light);
             lightState = \<lparr>state_index = light_index light, state_name = light_name light,
                           state_brightness = brightness, state_room = light_room light\<rparr>;
             (lightStates, c2) = captureLightStates rest roomFilter replies c1
         in (lightState # lightStates, c2)))"

text \<open>\<open>saveScene\<close>; \<open>created\<close> is the clock reading \<open>new Date().toISOString()\<close>.\<close>

definition saveScene ::
  "string \<Rightarrow> int option \<Rightarrow> string \<Rightarrow> (int \<Rightarrow> number option) \<Rightarrow> controller
     \<Rightarrow> bool \<times> controller" where
  "saveScene sceneName roomFilter created replies c =
     (if \<not> isInitialized c then (False, c)
      else if sceneName = [] then (False, c)
      else
        (let (lightStates, c1) = captureLightStates (map snd (lights c)) roomFilter replies c;
             scene = \<lparr>scene_name = sceneName, scene_created = created,
                      scene_room = roomFilter, scene_lights = lightStates\<rparr>
         in (True, c1\<lparr>scenes := (scenes c1)(sceneName \<mapsto> scene)\<rparr>)))"

text \<open>The loop of \<open>loadScene\<close> with its \<open>successCount\<close>.\<close>

fun applyLightStates :: "light_state list \<Rightarrow> nat \<Rightarrow> controller \<Rightarrow> nat \<times> controller" where
  "applyLightStates [] successCount c = (successCount, c)"
| "applyLightStates (lightState # rest) successCount c =
     (case setLightBrightness (state_index lightState) (state_brightness lightState) c of
        (True, c1) \<Rightarrow> applyLightStates rest (Suc successCount) c1
      | (False, c1) \<Rightarrow> applyLightStates rest successCount c1)"

definition loadScene :: "string \<Rightarrow> controller \<Rightarrow> bool \<times> controller" where
  "loadScene sceneName c =
     (case scenes c sceneName of
        None \<Rightarrow> (False, c)
      | Some scene \<Rightarrow>
          (let (successCount, c1) = applyLightStates (scene_lights scene) 0 c
           in (successCount > 0, c1)))"

subsection \<open>Schedules\<close>

text \<open>\<open>setInterval\<close> registers a periodic timer and returns its handle;
  \<open>clearInterval\<close> cancels the timer with the given handle.\<close>

definition setInterval :: "string \<Rightarrow> controller \<Rightarrow> nat \<times> controller" where
  "setInterval scheduleName c =
     (nextHandle c,
      c\<lparr>intervals := intervals c @ [(nextHandle c, scheduleName)],
        nextHandle := Suc (nextHandle c)\<rparr>)"

definition clearInterval :: "nat \<Rightarrow> controller \<Rightarrow> controller" where
  "clearInterval intervalId c = c\<lparr>intervals := filter (\<lambda>t. fst t \<noteq> intervalId) (intervals c)\<rparr>"

definition activateSchedule :: "string \<Rightarrow> controller \<Rightarrow> bool \<times> controller" where
  "activateSchedule scheduleName c =
     (case schedules c scheduleName of
        None \<Rightarrow> (False, c)
      | Some schedule \<Rightarrow>
          if scheduleName \<in> activeSchedules c then (True, c)
          else
            (let c1 = c\<lparr>activeSchedules := insert scheduleName (activeSchedules c)\<rparr>;
                 (intervalId, c2) = setInterval scheduleName c1
             in (True, c2\<lparr>scheduleIntervals := (scheduleIntervals c2)(scheduleName \<mapsto> intervalId)\<rparr>)))"

text \<open>\<open>if (intervalId)\<close> holds for a handle that is present and not zero.\<close>

definition deactivateSchedule :: "string \<Rightarrow> controller \<Rightarrow> bool \<times> controller" where
  "deactivateSchedule scheduleName c =
     (if scheduleName \<notin> activeSchedules c then (False, c)
      else
        (let c1 = (case scheduleIntervals c scheduleName of
                     None \<Rightarrow> c
                   | Some intervalId \<Rightarrow>
                       if intervalId \<noteq> 0
                       then (clearInterval intervalId c)
                              \<lparr>scheduleIntervals := (scheduleIntervals c)(scheduleName := None)\<rparr>
                       else c)
         in (True, c1\<lparr>activeSchedules := activeSchedules c1 - {scheduleName}\<rparr>)))"







subsection \<open>Discovery\<close>

text \<open>
  One call of \<open>initialize\<close>: the controller, the promise the call returned, and what its
  closures hold: whether the one-shot listener for the count is still registered, the
  indices whose one-shot object listener is still registered, \<open>totalLights\<close>
  (\<open>None\<close> before the count arrived and for a count \<open>parseInt\<close> reads as \<open>NaN\<close>),
  \<open>receivedCount\<close>, and whether the 10-second timer is still to fire.
\<close>

datatype promise = Pending | Resolved | Rejected string

record light_object =
  object_name :: string
  object_index :: int
  object_instance :: int
  object_command :: int
  object_room_loc :: int

record discovery =
  ctl :: controller
  promise :: promise
  countListener :: bool
  objectListeners :: "nat list"
  totalLights :: "int option"
  receivedCount :: nat
  timerPending :: bool

text \<open>
  \<open>initialize\<close> is modelled for a page on which \<open>sendWSData\<close> and \<open>parserUtils\<close>
  are defined (it rejects at once otherwise).  What reaches the page: the count reply as
  \<open>parseInt\<close> reads it, the reply for object \<open>i\<close> (\<open>None\<close> when \<open>JSON.parse\<close> or
  the reading of the name throws inside the \<open>try\<close>), the 10-second timer.
\<close>

datatype inbound =
    GET_LIGHT_COUNT "int option"
  | GET_LIGHT_OBJECT nat "light_object option"
  | TIMEOUT_10s

text \<open>Settling a promise that is already settled has no effect.\<close>

definition settle :: "promise \<Rightarrow> promise \<Rightarrow> promise" where
  "settle outcome p = (if p = Pending then outcome else p)"

definition roomNames :: "int \<Rightarrow> string option" where
  "roomNames = map_of [(0, ''Living Room''), (1, ''Kitchen''), (2, ''Bedroom''), (3, ''Bath''),
                       (4, ''Half Bath''), (5, ''Exterior'')]"

definition lightData :: "light_object \<Rightarrow> light" where
  "lightData lightObject =
     \<lparr>light_name = map (\<lambda>ch. if ch = CHR ''|'' then CHR '' '' else ch) (object_name lightObject),
      light_index = object_index lightObject,
      light_instance = object_instance lightObject,
      light_command = object_command lightObject,
      light_room = object_room_loc lightObject,
      roomName = (case roomNames (object_room_loc lightObject) of
                    Some n \<Rightarrow> n | None \<Rightarrow> ''Unknown''),
      isDimmer = (object_command lightObject = 0),
      currentBrightness = Finite 0\<rparr>"

definition initialize :: "controller \<Rightarrow> discovery" where
  "initialize c =
     \<lparr>ctl = sendWSData ''GET_LIGHT_COUNT'' c, promise = Pending, countListener = True,
      objectListeners = [], totalLights = None, receivedCount = 0, timerPending = True\<rparr>"

definition lightCountHandler :: "int option \<Rightarrow> discovery \<Rightarrow> discovery" where
  "lightCountHandler countText d =
     (let d1 = d\<lparr>countListener := False, totalLights := countText, receivedCount := 0\<rparr>
      in case countText of
           None \<Rightarrow> d1
         | Some n \<Rightarrow>
             if n = 0
             then d1\<lparr>ctl := (ctl d1)\<lparr>isInitialized := True\<rparr>,
                     promise := settle Resolved (promise d1)\<rparr>
             else d1\<lparr>objectListeners := objectListeners d1 @ [0..<nat n],
                     ctl := foldl (\<lambda>c i. sendWSData (''GET_LIGHT_OBJECT['' @
                                                      Number_toString (int i) 10 @ '']'') c)
                                  (ctl d1) [0..<nat n]\<rparr>)"

definition lightObjectHandler :: "light_object option \<Rightarrow> discovery \<Rightarrow> discovery" where
  "lightObjectHandler parsed d =
     (case parsed of
        None \<Rightarrow> d
      | Some lightObject \<Rightarrow>
          (let d1 = d\<lparr>ctl := (ctl d)\<lparr>lights := AList.update (object_index lightObject)
                                            (lightData lightObject) (lights (ctl d))\<rparr>,
                      receivedCount := Suc (receivedCount d)\<rparr>
           in if Some (int (receivedCount d1)) = totalLights d1
              then d1\<lparr>ctl := (ctl d1)\<lparr>isInitialized := True\<rparr>,
                      promise := settle Resolved (promise d1)\<rparr>
              else d1))"

fun deliver :: "inbound \<Rightarrow> discovery \<Rightarrow> discovery" where
  "deliver (GET_LIGHT_COUNT countText) d =
     (if countListener d then lightCountHandler countText d else d)"
| "deliver (GET_LIGHT_OBJECT i parsed) d =
     (if i \<in> set (objectListeners d)
      then lightObjectHandler parsed (d\<lparr>objectListeners := remove1 i (objectListeners d)\<rparr>)
      else d)"
| "deliver TIMEOUT_10s d =
     (if timerPending d
      then (let d1 = d\<lparr>timerPending := False\<rparr>
            in if \<not> isInitialized (ctl d1)
               then d1\<lparr>promise := settle (Rejected ''INIT_TIMEOUT'') (promise d1)\<rparr>
               else d1)
      else d)"

definition run :: "inbound list \<Rightarrow> discovery \<Rightarrow> discovery" where
  "run inbounds d = foldl (\<lambda>d e. deliver e d) d inbounds"

section \<open>Notions used in the statements\<close>

text \<open>An upper-case hexadecimal digit and a byte as two such digits: the notation in
  which the packed command word is described.\<close>

definition hexDigitUpper :: "nat \<Rightarrow> char" where
  "hexDigitUpper d = ''0123456789ABCDEF'' ! d"

definition hexByte :: "nat \<Rightarrow> string" where
  "hexByte n = [hexDigitUpper (n div 16), hexDigitUpper (n mod 16)]"

text \<open>\<open>clamp(b, 0, 100)\<close> on a finite value.\<close>

definition clamp :: "real \<Rightarrow> real" where
  "clamp brightness = max 0 (min 100 brightness)"

text \<open>
  The payload a control call is expected to transmit.  For a dimmer: the clamped
  percentage, divided by 100 and multiplied by 200 in double arithmetic, rounded to an
  integer (a 0 to 200 scale); plus infinity counts as 100 percent, minus infinity and
  \<open>NaN\<close> give 0.  For a switch: 1 when the clamped percentage is greater than 0, else 0.
\<close>

definition dimmerLevel :: "number \<Rightarrow> nat" where
  "dimmerLevel brightness =
     (case brightness of
        Finite b \<Rightarrow> nat (Math_round (binary64 (binary64 (clamp b / 100) * 200)))
      | PosInfinity \<Rightarrow> 200
      | NegInfinity \<Rightarrow> 0
      | NaN \<Rightarrow> 0)"

definition switchLevel :: "number \<Rightarrow> nat" where
  "switchLevel brightness =
     (case brightness of
        Finite b \<Rightarrow> if 0 < clamp b then 1 else 0
      | PosInfinity \<Rightarrow> 1
      | NegInfinity \<Rightarrow> 0
      | NaN \<Rightarrow> 0)"

text \<open>The message a control call is expected to put on the wire: the action name, then
  \<open>0x\<close>, the low byte of the light index and the payload byte in hexadecimal.\<close>

definition wireCommand :: "bool \<Rightarrow> int \<Rightarrow> number \<Rightarrow> string" where
  "wireCommand dimmer lightIndex brightness =
     (if dimmer
      then ''HMSEVENT=ENEWMARDIMMERPARSER_SET_BRIGHTNESS_NONSCALED|0x'' @
           hexByte (nat (lightIndex AND 0xFF)) @ hexByte (dimmerLevel brightness)
      else ''HMSEVENT=ENEWMARDIMMERPARSER_TURN_ON_OFF|0x'' @
           hexByte (nat (lightIndex AND 0xFF)) @ hexByte (switchLevel brightness))"

text \<open>
  A target is a light index with the level asked for it.  \<open>applyTargets\<close> makes the
  control calls for a list of targets one after the other; \<open>targetCommands\<close> is the list
  of messages these calls are expected to send, one for every target whose light is in
  the registry; \<open>cacheLevels\<close> is the registry they are expected to leave, the clamped
  level cached for every such target.
\<close>

definition applyTargets :: "(int \<times> number) list \<Rightarrow> controller \<Rightarrow> controller" where
  "applyTargets targets c = foldl (\<lambda>c (i, b). snd (setLightBrightness i b c)) c targets"

definition targetCommands :: "(int \<times> light) list \<Rightarrow> (int \<times> number) list \<Rightarrow> string list" where
  "targetCommands registry targets =
     concat (map (\<lambda>(i, b). case map_of registry i of
                               None \<Rightarrow> []
                             | Some light \<Rightarrow> [wireCommand (isDimmer light) i b]) targets)"

definition cacheLevels :: "(int \<times> number) list \<Rightarrow> (int \<times> light) list \<Rightarrow> (int \<times> light) list" where
  "cacheLevels targets registry =
     foldl (\<lambda>registry (i, b).
              case map_of registry i of
                None \<Rightarrow> registry
              | Some light \<Rightarrow>
                  AList.update i (light\<lparr>currentBrightness := clampBrightness b\<rparr>) registry)
       registry targets"




text \<open>The number of members of a scene that a load can apply: those whose device is in
  the registry.\<close>

definition appliedCount :: "light_state list \<Rightarrow> controller \<Rightarrow> nat" where
  "appliedCount members c =
     length (filter (\<lambda>m. map_of (lights c) (state_index m) \<noteq> None) members)"

text \<open>Whether a device passes the room filter of a save.\<close>

definition passesFilter :: "int option \<Rightarrow> light \<Rightarrow> bool" where
  "passesFilter roomFilter light \<longleftrightarrow> roomFilter = None \<or> roomFilter = Some (light_room light)"

text \<open>A call of the schedule interface, and the number of live periodic evaluators
  whose callback checks a given schedule.\<close>

datatype schedule_call = Activate string | Deactivate string

fun perform :: "schedule_call \<Rightarrow> controller \<Rightarrow> controller" where
  "perform (Activate scheduleName) c = snd (activateSchedule scheduleName c)"
| "perform (Deactivate scheduleName) c = snd (deactivateSchedule scheduleName c)"

definition evaluators :: "string \<Rightarrow> controller \<Rightarrow> nat" where
  "evaluators scheduleName c = length (filter (\<lambda>t. snd t = scheduleName) (intervals c))"

definition afterCalls :: "schedule_call list \<Rightarrow> controller \<Rightarrow> controller" where
  "afterCalls calls c = foldl (\<lambda>c call. perform call c) c calls"

text \<open>The bookkeeping of evaluators is consistent: timer handles are positive, below
  the next handle and pairwise different; the live timers are exactly the entries of
  \<open>scheduleIntervals\<close>; the active names are exactly the keys of \<open>scheduleIntervals\<close>;
  every active name has a stored schedule.\<close>

definition schedule_inv :: "controller \<Rightarrow> bool" where
  "schedule_inv c \<longleftrightarrow>
     0 < nextHandle c \<and>
     distinct (map fst (intervals c)) \<and>
     (\<forall>h n. (h, n) \<in> set (intervals c) \<longrightarrow>
        0 < h \<and> h < nextHandle c \<and> scheduleIntervals c n = Some h) \<and>
     (\<forall>n h. scheduleIntervals c n = Some h \<longrightarrow> (h, n) \<in> set (intervals c)) \<and>
     (\<forall>n. n \<in> activeSchedules c \<longleftrightarrow> scheduleIntervals c n \<noteq> None) \<and>
     (\<forall>n. n \<in> activeSchedules c \<longrightarrow> schedules c n \<noteq> None)"

text \<open>
  Two facts about a discovery in progress.  \<open>discovery_inv\<close>: while the count is awaited
  no object listener exists; while object listeners exist the controller is not
  initialized and the replies received plus the replies still awaited do not exceed the
  total; and as long as the controller is not initialized the promise is pending until the
  timer fires and rejected with \<open>INIT_TIMEOUT\<close> afterwards.  \<open>short_of_total\<close>: the
  count has arrived, the controller is not initialized, and the replies received plus the
  replies still awaited are fewer than the total.
\<close>

definition discovery_inv :: "discovery \<Rightarrow> bool" where
  "discovery_inv d \<longleftrightarrow>
     (countListener d \<longrightarrow> objectListeners d = [] \<and> \<not> isInitialized (ctl d)) \<and>
     (objectListeners d \<noteq> [] \<longrightarrow>
        \<not> isInitialized (ctl d) \<and>
        (\<exists>n. totalLights d = Some n \<and>
             int (receivedCount d) + int (length (objectListeners d)) \<le> n)) \<and>
     (\<not> isInitialized (ctl d) \<longrightarrow>
        promise d = (if timerPending d then Pending else Rejected ''INIT_TIMEOUT''))"

definition short_of_total :: "discovery \<Rightarrow> bool" where
  "short_of_total d \<longleftrightarrow>
     \<not> countListener d \<and> \<not> isInitialized (ctl d) \<and>
     (\<exists>n. totalLights d = Some n \<and>
          int (receivedCount d) + int (length (objectListeners d)) < n)"

section \<open>A small installation\<close>

text \<open>A dimmer in the living room and a switch outside, discovered and ready; used to
  run the operations on concrete inputs.\<close>

definition ceilingDimmer :: light where
  "ceilingDimmer =
     \<lparr>light_name = ''Ceiling'', light_index = 3, light_instance = 3, light_command = 0,
      light_room = 0, roomName = ''Living Room'', isDimmer = True, currentBrightness = Finite 40\<rparr>"

definition porchSwitch :: light where
  "porchSwitch =
     \<lparr>light_name = ''Porch'', light_index = 5, light_instance = 5, light_command = 1,
      light_room = 5, roomName = ''Exterior'', isDimmer = False, currentBrightness = Finite 0\<rparr>"

definition demoController :: controller where
  "demoController =
     (newController Map.empty Map.empty)
       \<lparr>lights := [(3, ceilingDimmer), (5, porchSwitch)], isInitialized := True\<rparr>"

text \<open>Two stored scenes on that installation: one whose second member refers to a
  device that is not in the registry, one whose members are both present.\<close>

definition eveningScene :: scene where
  "eveningScene =
     \<lparr>scene_name = ''Evening'', scene_created = ''2024-05-01T19:00:00.000Z'', scene_room = None,
      scene_lights =
        [\<lparr>state_index = 3, state_name = ''Ceiling'', state_brightness = Finite 60, state_room = 0\<rparr>,
         \<lparr>state_index = 9, state_name = ''Galley'', state_brightness = Finite 80, state_room = 1\<rparr>]\<rparr>"

definition brightScene :: scene where
  "brightScene =
     \<lparr>scene_name = ''Bright'', scene_created = ''2024-05-01T19:05:00.000Z'', scene_room = None,
      scene_lights =
        [\<lparr>state_index = 3, state_name = ''Ceiling'', state_brightness = Finite 100, state_room = 0\<rparr>,
         \<lparr>state_index = 5, state_name = ''Porch'', state_brightness = Finite 100, state_room = 5\<rparr>]\<rparr>"

definition sceneController :: controller where
  "sceneController =
     demoController\<lparr>scenes := [''Evening'' \<mapsto> eveningScene, ''Bright'' \<mapsto> brightScene]\<rparr>"

text \<open>A schedule that switches everything off on Monday at 07:00, stored once enabled
  and once disabled, and a schedule that on Friday at 19:30 loads the evening scene and
  then switches everything on.\<close>

definition mondayOff :: schedule_event where
  "mondayOff =
     \<lparr>event_time = ''07:00'', event_days = [''mon''], event_scene = None,
      event_action = ''lights_off''\<rparr>"

definition morningSchedule :: schedule where
  "morningSchedule =
     \<lparr>schedule_name = ''Morning'', enabled = True,
      schedule_created = ''2024-05-01T19:10:00.000Z'', events = [mondayOff]\<rparr>"









text \<open>A save on that installation during which the dimmer answers its status request
  with a text that \<open>parseInt\<close> reads as \<open>NaN\<close> and the switch does not answer.\<close>

definition statusReplies :: "int \<Rightarrow> number option" where
  "statusReplies i = (if i = 3 then Some NaN else None)"

definition nightController :: controller where
  "nightController =
     snd (saveScene ''Night'' None ''2024-05-01T22:00:00.000Z'' statusReplies demoController)"

text \<open>The reply describing the ceiling dimmer.\<close>

definition ceilingObject :: light_object where
  "ceilingObject =
     \<lparr>object_name = ''Ceiling'', object_index = 3, object_instance = 3, object_command = 0,
      object_room_loc = 0\<rparr>"

section \<open>Properties of the codec\<close>

lemma toDigits_small: "n < radix \<Longrightarrow> toDigits radix n = [digit_char n]"
  by (subst toDigits.simps) simp

lemma toDigits_big:
  "2 \<le> radix \<Longrightarrow> radix \<le> n \<Longrightarrow>
   toDigits radix n = toDigits radix (n div radix) @ [digit_char (n mod radix)]"
  by (subst toDigits.simps) simp

lemma lt16_cases:
  "d < (16::nat) \<Longrightarrow> d = 0 \<or> d = 1 \<or> d = 2 \<or> d = 3 \<or> d = 4 \<or> d = 5 \<or> d = 6 \<or> d = 7 \<or>
     d = 8 \<or> d = 9 \<or> d = 10 \<or> d = 11 \<or> d = 12 \<or> d = 13 \<or> d = 14 \<or> d = 15"
  by arith

lemma toUpperCase_digit:
  assumes "d < 16"
  shows "toUpperCase_char (digit_char d) = hexDigitUpper d"
  using lt16_cases [OF assms]
  by (elim disjE) (simp_all add: toUpperCase_char_def digit_char_def hexDigitUpper_def)

lemma hexDigitUpper_0: "hexDigitUpper 0 = CHR ''0''"
  by (simp add: hexDigitUpper_def)

lemma rep_small: "replicate 3 x = [x, x, x]" "replicate 2 x = [x, x]"
  by (simp_all add: numeral_3_eq_3 numeral_2_eq_2)

lemma hex4:
  assumes "n < 65536"
  shows "upad (toUpperCase (toDigits 16 n)) 4 =
         Inr [hexDigitUpper (n div 4096), hexDigitUpper (n div 256 mod 16),
              hexDigitUpper (n div 16 mod 16), hexDigitUpper (n mod 16)]"
proof -
  have m: "n mod 16 < 16" by simp
  consider "n < 16" | "16 \<le> n" "n < 256" | "256 \<le> n" "n < 4096" | "4096 \<le> n"
    by linarith
  then show ?thesis
  proof cases
    case 1
    then show ?thesis
      by (simp add: toDigits_small toUpperCase_def toUpperCase_digit upad_def hexDigitUpper_0 rep_small)
  next
    case 2
    then have a: "n div 16 < 16" by simp
    have d: "n div 256 = 0" "n div 4096 = 0" using 2 by simp_all
    show ?thesis using 2 a
      by (simp add: toDigits_big toDigits_small toUpperCase_def toUpperCase_digit upad_def d
          hexDigitUpper_0 rep_small)
  next
    case 3
    then have a: "n div 16 \<ge> 16" "n div 16 div 16 < 16" by simp_all
    have d: "n div 4096 = 0" using 3 by simp
    have e: "n div 16 div 16 = n div 256" by (simp add: div_mult2_eq)
    have f: "n div 256 mod 16 = n div 256" using a e by simp
    show ?thesis using 3 a
      by (simp add: toDigits_big toDigits_small toUpperCase_def toUpperCase_digit upad_def d e f
          hexDigitUpper_0)
  next
    case 4
    then have a: "n div 16 \<ge> 16" "n div 16 div 16 \<ge> 16" "n div 16 div 16 div 16 < 16" 
      using assms by simp_all
    have e: "n div 16 div 16 = n div 256" "n div 256 div 16 = n div 4096"
      by (simp_all add: div_mult2_eq)
    show ?thesis using 4 a
      by (simp add: toDigits_big toDigits_small toUpperCase_def toUpperCase_digit upad_def e)
  qed
qed

lemma js_or_commute: "js_or a b = js_or b a"
  by (simp add: js_or_def or.commute)

lemma bit_js_or: "bit (js_or a b) n \<longleftrightarrow> bit a (min 31 n) \<or> bit b (min 31 n)"
  by (simp add: js_or_def bit_signed_take_bit_iff bit_or_iff)

lemma bit_foldl_js_or:
  "rest \<noteq> [] \<Longrightarrow> bit (foldl js_or a rest) n \<longleftrightarrow> (\<exists>x\<in>set (a # rest). bit x (min 31 n))"
proof (induction rest arbitrary: n rule: rev_induct)
  case Nil
  then show ?case by simp
next
  case (snoc z zs)
  show ?case
  proof (cases "zs = []")
    case True
    then show ?thesis by (auto simp: bit_js_or)
  next
    case False
    with snoc.IH [of "min 31 n"] show ?thesis by (auto simp: bit_js_or)
  qed
qed

lemma foldl_js_or_set:
  assumes "rest \<noteq> []" "rest' \<noteq> []" "set (a # rest) = set (b # rest')"
  shows "foldl js_or a rest = foldl js_or b rest'"
proof (rule bit_eqI)
  fix n
  show "bit (foldl js_or a rest) n \<longleftrightarrow> bit (foldl js_or b rest') n"
    using assms(3) by (simp only: bit_foldl_js_or [OF assms(1)] bit_foldl_js_or [OF assms(2)])
qed

lemma packEvent_set:
  assumes "2 \<le> length xs" "2 \<le> length ys" "set xs = set ys"
  shows "packEvent xs = packEvent ys"
proof -
  obtain a rest where xs: "xs = a # rest" "rest \<noteq> []"
    using assms(1) by (cases xs) (auto simp: Suc_le_eq)
  obtain b rest' where ys: "ys = b # rest'" "rest' \<noteq> []"
    using assms(2) by (cases ys) (auto simp: Suc_le_eq)
  have "foldl js_or a rest = foldl js_or b rest'"
    using xs ys assms(3) by (intro foldl_js_or_set) simp_all
  then show ?thesis
    by (simp add: packEvent_def xs ys)
qed

lemma packEvent_mset:
  assumes "mset xs = mset ys"
  shows "packEvent xs = packEvent ys"
proof (cases "2 \<le> length xs")
  case True
  moreover have "length ys = length xs"
    using assms by (metis size_mset)
  moreover have "set xs = set ys"
    using assms by (metis set_mset_mset)
  ultimately show ?thesis
    by (intro packEvent_set) simp_all
next
  case False
  then consider "xs = []" | x where "xs = [x]"
    by (cases xs) (auto simp: Suc_le_eq intro: that)
  then show ?thesis
  proof cases
    case 1
    with assms show ?thesis by simp
  next
    case 2
    with assms have "ys = [x]" by (metis mset_single_iff_right mset.simps(1,2) add_mset_eq_single)
    with 2 show ?thesis by simp
  qed
qed

lemma ESET_INSTANCE_3: "ESET_INSTANCE 3 = 768"
  by (simp add: ESET_INSTANCE_def Math_round_def)

lemma ESET_BRIGHTNESS_200: "ESET_BRIGHTNESS 200 = 200"
  by (simp add: ESET_BRIGHTNESS_def Math_round_def)

lemma packEvent_768_200: "packEvent [768, 200] = Inr ''0x03C8''"
  by (simp add: packEvent_def js_or_def Number_toString_def toDigits_small toDigits_big
      digit_char_def toUpperCase_def toUpperCase_char_def upad_def)

text \<open>
  Claim C8.  \<open>packEvent\<close> does not depend on the order of its fields (any rearrangement
  of the argument list gives the same token), packing the same fields a second time gives
  the same token (for a single field, when it is a 32-bit value, as every encoded field
  is), and instance 3 with brightness 200 packs to \<open>0x03C8\<close>: instance in the
  high byte, brightness in the low byte, four upper-case hexadecimal digits after \<open>0x\<close>.
\<close>

theorem packEvent_commutative_idempotent:
  "(mset xs = mset ys \<longrightarrow> packEvent xs = packEvent ys) \<and>
   (2 \<le> length xs \<longrightarrow> packEvent (xs @ xs) = packEvent xs) \<and>
   (- (2 ^ 31) \<le> a \<and> a < 2 ^ 31 \<longrightarrow> packEvent [a, a] = packEvent [a]) \<and>
   packEvent [a, b] = packEvent [b, a] \<and>
   packEvent [a, b, a, b] = packEvent [a, b] \<and>
   packEvent [ESET_INSTANCE 3, ESET_BRIGHTNESS 200] = Inr ''0x03C8''"
proof (intro conjI impI)
  assume "mset xs = mset ys"
  then show "packEvent xs = packEvent ys" by (rule packEvent_mset)
next
  assume "2 \<le> length xs"
  then show "packEvent (xs @ xs) = packEvent xs"
    by (intro packEvent_set) simp_all
next
  assume "- (2 ^ 31) \<le> a \<and> a < 2 ^ 31"
  then have "signed_take_bit 31 a = a"
    by (intro signed_take_bit_int_eq_self) simp_all
  then show "packEvent [a, a] = packEvent [a]"
    by (simp add: packEvent_def js_or_def)
next
  show "packEvent [a, b] = packEvent [b, a]"
    by (rule packEvent_mset) simp
next
  show "packEvent [a, b, a, b] = packEvent [a, b]"
    by (rule packEvent_set) auto
next
  show "packEvent [ESET_INSTANCE 3, ESET_BRIGHTNESS 200] = Inr ''0x03C8''"
    by (simp only: ESET_INSTANCE_3 ESET_BRIGHTNESS_200 packEvent_768_200)
qed

theorem packEvent_commutative_idempotent_witness:
  "mset [ESET_BRIGHTNESS 200, ESET_INSTANCE 3] = mset [ESET_INSTANCE 3, ESET_BRIGHTNESS 200] \<and>
   packEvent [ESET_BRIGHTNESS 200, ESET_INSTANCE 3] = Inr ''0x03C8'' \<and>
   2 \<le> length [ESET_INSTANCE 3, ESET_BRIGHTNESS 200] \<and>
   packEvent ([ESET_INSTANCE 3, ESET_BRIGHTNESS 200] @ [ESET_INSTANCE 3, ESET_BRIGHTNESS 200])
     = Inr ''0x03C8'' \<and>
   - (2 ^ 31) \<le> (768 :: int) \<and> (768 :: int) < 2 ^ 31 \<and>
   packEvent [768, 768] = packEvent [768]"
  using packEvent_commutative_idempotent
          [of "[ESET_BRIGHTNESS 200, ESET_INSTANCE 3]" "[ESET_INSTANCE 3, ESET_BRIGHTNESS 200]"]
        packEvent_commutative_idempotent
          [of "[ESET_INSTANCE 3, ESET_BRIGHTNESS 200]" "[ESET_INSTANCE 3, ESET_BRIGHTNESS 200]" 768]
  by simp

text \<open>
  Claim C4, as stated, fails: brightness 200 (the full-scale wire value the controller
  itself sends) is encoded as 200, while rounding the value clamped to \<open>[0,100]\<close> gives
  100.
\<close>

theorem ESET_BRIGHTNESS_not_clamped:
  "ESET_BRIGHTNESS 200 \<noteq> Math_round (clamp 200) AND 0xFF"
  by (simp add: ESET_BRIGHTNESS_def Math_round_def clamp_def)

text \<open>
  Claim C4, amended.  For every brightness \<open>b\<close>, \<open>ESET_BRIGHTNESS\<close> returns the low
  byte of \<open>round(b)\<close>, a value from 0 to 255, and does not clamp; for \<open>b\<close> within
  \<open>[0,100]\<close> this is the low byte of \<open>round(clamp(b,0,100))\<close>.
\<close>

theorem ESET_BRIGHTNESS_low_byte:
  "ESET_BRIGHTNESS b = Math_round b AND 0xFF \<and>
   0 \<le> ESET_BRIGHTNESS b \<and> ESET_BRIGHTNESS b \<le> 255 \<and>
   (0 \<le> b \<and> b \<le> 100 \<longrightarrow> ESET_BRIGHTNESS b = Math_round (clamp b) AND 0xFF)"
proof -
  have "Math_round b AND 255 \<le> 255"
    by (rule AND_upper2) simp
  then show ?thesis
    by (simp add: ESET_BRIGHTNESS_def clamp_def)
qed

theorem ESET_BRIGHTNESS_low_byte_witness:
  "(0::real) \<le> 37 \<and> (37::real) \<le> 100 \<and> ESET_BRIGHTNESS 37 = Math_round (clamp 37) AND 0xFF \<and>
   ESET_BRIGHTNESS 37 = 37"
  using ESET_BRIGHTNESS_low_byte [of 37]
  by (simp add: Math_round_def clamp_def)

section \<open>Properties of manual control\<close>

lemma pow2_pos: "0 < pow2 e"
  by (simp add: pow2_def)

lemma pow2_powr: "pow2 e = 2 powr of_int e"
  by (simp add: pow2_def powr_int field_simps)

lemma round_half_even_error: "\<bar>of_int (round_half_even x) - x\<bar> \<le> 1 / 2"
  unfolding round_half_even_def Let_def by (auto simp: abs_le_iff)

lemma round_half_even_ge: "of_int m \<le> x \<Longrightarrow> m \<le> round_half_even x"
  unfolding round_half_even_def Let_def by (auto simp: le_floor_iff) linarith

lemma round_half_even_le: "x \<le> of_int m \<Longrightarrow> round_half_even x \<le> m"
  unfolding round_half_even_def Let_def by (auto simp: floor_le_iff)

lemma ulp_exponent_le:
  assumes "x \<noteq> 0" "\<bar>x\<bar> < 2 ^ k"
  shows "ulp_exponent x \<le> max (int k - 53) (- 1074)"
proof -
  have "log 2 \<bar>x\<bar> < log 2 (2 ^ k)"
    using assms by (intro log_less) simp_all
  then have "log 2 \<bar>x\<bar> < of_int (int k)" by simp
  then have "\<lfloor>log 2 \<bar>x\<bar>\<rfloor> < int k" by (simp only: floor_less_iff)
  then show ?thesis by (simp add: ulp_exponent_def)
qed

lemma binary64_error:
  assumes "x \<noteq> 0"
  shows "\<bar>binary64 x - x\<bar> \<le> pow2 (ulp_exponent x) / 2"
proof -
  let ?u = "pow2 (ulp_exponent x)"
  have u: "0 < ?u" by (rule pow2_pos)
  have "\<bar>of_int (round_half_even (x / ?u)) - x / ?u\<bar> \<le> 1 / 2"
    by (rule round_half_even_error)
  then have "\<bar>of_int (round_half_even (x / ?u)) - x / ?u\<bar> * ?u \<le> 1 / 2 * ?u"
    using u by (intro mult_right_mono) simp_all
  moreover have "\<bar>of_int (round_half_even (x / ?u)) - x / ?u\<bar> * ?u =
                 \<bar>of_int (round_half_even (x / ?u)) * ?u - x\<bar>"
  proof -
    have "(of_int (round_half_even (x / ?u)) - x / ?u) * ?u =
          of_int (round_half_even (x / ?u)) * ?u - x"
      using u by (simp add: field_simps)
    moreover have "\<bar>of_int (round_half_even (x / ?u)) - x / ?u\<bar> * ?u =
          \<bar>(of_int (round_half_even (x / ?u)) - x / ?u) * ?u\<bar>"
      using u by (simp add: abs_mult)
    ultimately show ?thesis by simp
  qed
  ultimately show ?thesis using assms by (simp add: binary64_def)
qed

lemma pow2_inverse_int:
  assumes "e \<le> 0"
  shows "1 / pow2 e = of_int (2 ^ nat (- e))"
  using assms by (cases "e = 0") (simp_all add: pow2_def)

lemma binary64_ge_int:
  assumes "ulp_exponent x \<le> 0" "of_int m \<le> x"
  shows "of_int m \<le> binary64 x"
proof (cases "x = 0")
  case True
  with assms show ?thesis by (simp add: binary64_def)
next
  case False
  let ?u = "pow2 (ulp_exponent x)"
  let ?N = "2 ^ nat (- ulp_exponent x) :: int"
  have u: "0 < ?u" by (rule pow2_pos)
  have N: "1 / ?u = of_int ?N" by (rule pow2_inverse_int [OF assms(1)])
  then have xu: "x / ?u = x * of_int ?N" by (simp add: divide_inverse)
  have "of_int (m * ?N) \<le> x / ?u"
    unfolding xu using assms(2) by (simp add: mult_right_mono)
  then have "m * ?N \<le> round_half_even (x / ?u)" by (rule round_half_even_ge)
  then have "(of_int (m * ?N) :: real) \<le> of_int (round_half_even (x / ?u))"
    by (simp only: of_int_le_iff)
  then have ineq: "of_int (m * ?N) * ?u \<le> of_int (round_half_even (x / ?u)) * ?u"
    using u by (intro mult_right_mono) simp_all
  have eq: "of_int (m * ?N) * ?u = of_int m"
    using N u by (simp add: field_simps)
  from ineq [unfolded eq] show ?thesis
    using False by (simp only: binary64_def if_False)
qed

lemma binary64_le_int:
  assumes "ulp_exponent x \<le> 0" "x \<le> of_int m"
  shows "binary64 x \<le> of_int m"
proof (cases "x = 0")
  case True
  with assms show ?thesis by (simp add: binary64_def)
next
  case False
  let ?u = "pow2 (ulp_exponent x)"
  let ?N = "2 ^ nat (- ulp_exponent x) :: int"
  have u: "0 < ?u" by (rule pow2_pos)
  have N: "1 / ?u = of_int ?N" by (rule pow2_inverse_int [OF assms(1)])
  then have xu: "x / ?u = x * of_int ?N" by (simp add: divide_inverse)
  have "x / ?u \<le> of_int (m * ?N)"
    unfolding xu using assms(2) by (simp add: mult_right_mono)
  then have "round_half_even (x / ?u) \<le> m * ?N" by (rule round_half_even_le)
  then have "(of_int (round_half_even (x / ?u)) :: real) \<le> of_int (m * ?N)"
    by (simp only: of_int_le_iff)
  then have ineq: "of_int (round_half_even (x / ?u)) * ?u \<le> of_int (m * ?N) * ?u"
    using u by (intro mult_right_mono) simp_all
  have eq: "of_int (m * ?N) * ?u = of_int m"
    using N u by (simp add: field_simps)
  from ineq [unfolded eq] show ?thesis
    using False by (simp only: binary64_def if_False)
qed


lemma pow2_mono: "e \<le> e' \<Longrightarrow> pow2 e \<le> pow2 e'"
  by (simp add: pow2_powr powr_mono)

lemma binary64_0: "binary64 0 = 0"
  by (simp add: binary64_def)

lemma ulp_exponent_small:
  assumes "x \<noteq> 0" "\<bar>x\<bar> < 2 ^ k" "k \<le> 53"
  shows "ulp_exponent x \<le> int k - 53" "ulp_exponent x \<le> 0"
  using ulp_exponent_le [OF assms(1,2)] assms(3) by simp_all

lemma binary64_unit:
  assumes "0 \<le> x" "x \<le> 1"
  shows "0 \<le> binary64 x" "binary64 x \<le> 1"
proof -
  have e: "ulp_exponent x \<le> 0" if "x \<noteq> 0"
    using that assms by (intro ulp_exponent_small(2) [of x 1]) simp_all
  show "0 \<le> binary64 x"
    using binary64_ge_int [of x 0] e assms by (cases "x = 0") (simp_all add: binary64_0)
  show "binary64 x \<le> 1"
    using binary64_le_int [of x 1] e assms by (cases "x = 0") (simp_all add: binary64_0)
qed

lemma binary64_200:
  assumes "0 \<le> y" "y \<le> 200"
  shows "0 \<le> binary64 y" "binary64 y \<le> 200"
proof -
  have e: "ulp_exponent y \<le> 0" if "y \<noteq> 0"
    using that assms by (intro ulp_exponent_small(2) [of y 8]) simp_all
  show "0 \<le> binary64 y"
    using binary64_ge_int [of y 0] e assms by (cases "y = 0") (simp_all add: binary64_0)
  show "binary64 y \<le> 200"
    using binary64_le_int [of y 200] e assms by (cases "y = 0") (simp_all add: binary64_0)
qed

lemma scaled_range:
  assumes "0 \<le> r" "r \<le> 100"
  shows "0 \<le> Math_round (binary64 (binary64 (r / 100) * 200))"
        "Math_round (binary64 (binary64 (r / 100) * 200)) \<le> 200"
proof -
  have a: "0 \<le> binary64 (r / 100)" "binary64 (r / 100) \<le> 1"
    using assms by (intro binary64_unit; simp)+
  then have b: "0 \<le> binary64 (binary64 (r / 100) * 200)"
               "binary64 (binary64 (r / 100) * 200) \<le> 200"
    by (intro binary64_200; simp)+
  show "0 \<le> Math_round (binary64 (binary64 (r / 100) * 200))"
    using b(1) unfolding Math_round_def by linarith
  show "Math_round (binary64 (binary64 (r / 100) * 200)) \<le> 200"
    using b(2) unfolding Math_round_def by linarith
qed

lemma binary64_error_bound:
  assumes "\<bar>x\<bar> < 2 ^ k" "k \<le> 53"
  shows "\<bar>binary64 x - x\<bar> \<le> pow2 (int k - 53) / 2"
proof (cases "x = 0")
  case True
  then show ?thesis using pow2_pos [of "int k - 53"] by (simp add: binary64_0)
next
  case False
  have "\<bar>binary64 x - x\<bar> \<le> pow2 (ulp_exponent x) / 2" by (rule binary64_error [OF False])
  also have "\<dots> \<le> pow2 (int k - 53) / 2"
    using pow2_mono [OF ulp_exponent_small(1) [OF False assms]] by simp
  finally show ?thesis .
qed

lemma scaled_integer:
  assumes "n \<le> 100"
  shows "Math_round (binary64 (binary64 (real n / 100) * 200)) = 2 * int n"
proof -
  define x where "x = real n / 100"
  define a where "a = binary64 x"
  define y where "y = a * 200"
  define b where "b = binary64 y"
  have x: "0 \<le> x" "x \<le> 1" using assms by (simp_all add: x_def)
  have a: "0 \<le> a" "a \<le> 1" unfolding a_def using x by (intro binary64_unit; simp)+
  have "\<bar>a - x\<bar> \<le> pow2 (int 1 - 53) / 2"
    unfolding a_def using x by (intro binary64_error_bound) simp_all
  then have ea: "\<bar>a - x\<bar> \<le> 1 / 2 ^ 53" by (simp add: pow2_def)
  have "\<bar>b - y\<bar> \<le> pow2 (int 8 - 53) / 2"
    unfolding b_def y_def using a by (intro binary64_error_bound) simp_all
  then have eb: "\<bar>b - y\<bar> \<le> 1 / 2 ^ 46" by (simp add: pow2_def)
  have n: "2 * real n = x * 200" by (simp add: x_def)
  have split: "b - x * 200 = (b - y) + (a - x) * 200"
    by (simp add: y_def algebra_simps)
  have "\<bar>(a - x) * 200\<bar> = \<bar>a - x\<bar> * 200"
    by (simp only: abs_mult abs_numeral)
  then have "\<bar>b - x * 200\<bar> \<le> \<bar>b - y\<bar> + \<bar>a - x\<bar> * 200"
    unfolding split using abs_triangle_ineq [of "b - y" "(a - x) * 200"] by simp
  also have "\<dots> \<le> 1 / 2 ^ 46 + 1 / 2 ^ 53 * 200"
    using ea eb by (intro add_mono mult_right_mono) simp_all
  also have "\<dots> < 1 / 2" by simp
  finally have "\<bar>b - 2 * real n\<bar> < 1 / 2" unfolding n .
  then have "- (1 / 2) < b - 2 * real n" "b - 2 * real n < 1 / 2"
    unfolding abs_less_iff by linarith+
  then have "of_int (2 * int n) \<le> b + 1 / 2" "b + 1 / 2 < of_int (2 * int n) + 1"
    by simp_all
  then have "\<lfloor>b + 1 / 2\<rfloor> = 2 * int n" by (rule floor_unique)
  then show ?thesis
    unfolding Math_round_def b_def y_def a_def x_def .
qed

lemma binary64_eval:
  assumes "pow2 k \<le> \<bar>x\<bar>" "\<bar>x\<bar> < pow2 (k + 1)" "- 1022 \<le> k"
    "round_half_even (x / pow2 (k - 52)) = m"
  shows "binary64 x = of_int m * pow2 (k - 52)"
proof -
  have pos: "0 < \<bar>x\<bar>" using assms(1) pow2_pos [of k] by linarith
  have "\<lfloor>log 2 \<bar>x\<bar>\<rfloor> = k"
    using assms(1,2) pos by (subst floor_log_eq_powr_iff) (simp_all add: pow2_powr)
  then have "ulp_exponent x = k - 52" using assms(3) by (simp add: ulp_exponent_def)
  then show ?thesis using pos assms(4) by (simp add: binary64_def)
qed

lemma step1: "binary64 (29 / 4 / 100) = 5224175567749775 / 2 ^ 56"
proof -
  have "binary64 (29 / 4 / 100) = of_int 5224175567749775 * pow2 (- 4 - 52)"
    by (rule binary64_eval) (simp_all add: pow2_def round_half_even_def)
  then show ?thesis by (simp add: pow2_def)
qed

lemma step2: "binary64 (5224175567749775 / 2 ^ 56 * 200) = 8162774324609023 / 2 ^ 49"
proof -
  have "binary64 (5224175567749775 / 2 ^ 56 * 200) = of_int 8162774324609023 * pow2 (3 - 52)"
    by (rule binary64_eval) (simp_all add: pow2_def round_half_even_def)
  then show ?thesis by (simp add: pow2_def)
qed

lemma scaled_7_25: "Math_round (binary64 (binary64 (29 / 4 / 100) * 200)) = 14"
  unfolding step1 step2 by (simp add: Math_round_def)

lemma Math_round_of_int: "Math_round (of_int k) = k"
  unfolding Math_round_def by linarith

lemma and_255_self: "0 \<le> k \<Longrightarrow> k < 256 \<Longrightarrow> k AND 255 = (k::int)"
  using take_bit_int_eq_self [of k 8] by (simp add: take_bit_eq_mask mask_eq_exp_minus_1)

lemma and_255_range: "0 \<le> (k::int) AND 255" "(k::int) AND 255 < 256"
proof -
  show "0 \<le> k AND 255" by simp
  have "k AND 255 \<le> 255" by (rule AND_upper2) simp
  then show "k AND 255 < 256" by simp
qed

lemma js_or_bytes:
  assumes "0 \<le> hi" "hi < 256" "0 \<le> lo" "lo < 256"
  shows "js_or (push_bit 8 hi) lo = hi * 256 + lo"
proof -
  have "push_bit 8 hi OR lo = concat_bit 8 lo hi"
    using assms by (simp add: concat_bit_def take_bit_int_eq_self or.commute)
  also have "\<dots> = lo + hi * 256"
    using assms by (simp add: concat_bit_eq take_bit_int_eq_self push_bit_eq_mult)
  finally have e: "push_bit 8 hi OR lo = hi * 256 + lo" by simp
  have "signed_take_bit 31 (hi * 256 + lo) = hi * 256 + lo"
    using assms by (intro signed_take_bit_int_eq_self) simp_all
  then show ?thesis by (simp add: js_or_def e)
qed

lemma bytes_digits:
  fixes h l :: nat
  assumes "h < 256" "l < 256"
  defines "n \<equiv> h * 256 + l"
  shows "n div 4096 = h div 16" "n div 256 mod 16 = h mod 16"
        "n div 16 mod 16 = l div 16" "n mod 16 = l mod 16"
proof -
  have a: "n div 256 = h" using assms by simp
  have "n div 4096 = n div 256 div 16" by (simp add: div_mult2_eq)
  then show "n div 4096 = h div 16" by (simp add: a)
  show "n div 256 mod 16 = h mod 16" by (simp add: a)
  have n16: "n = (h * 16) * 16 + l" by (simp add: n_def)
  have "n div 16 = h * 16 + l div 16" by (simp add: n16)
  moreover have "l div 16 < 16" using assms by simp
  ultimately show "n div 16 mod 16 = l div 16" by simp
  show "n mod 16 = l mod 16" unfolding n16 by (rule mod_mult_self3)
qed

lemma packEvent_bytes:
  assumes "0 \<le> hi" "hi < 256" "0 \<le> lo" "lo < 256"
  shows "packEvent [push_bit 8 hi, lo] = Inr (''0x'' @ hexByte (nat hi) @ hexByte (nat lo))"
proof -
  define n where "n = nat hi * 256 + nat lo"
  have h: "nat hi < 256" "nat lo < 256" using assms by simp_all
  have n: "n < 65536" "hi * 256 + lo = int n"
    using assms by (simp_all add: n_def)
  have val: "foldl js_or (push_bit 8 hi) [lo] = int n"
    by (simp add: js_or_bytes [OF assms] n(2))
  have str: "Number_toString (int n) 16 = toDigits 16 n"
    by (simp add: Number_toString_def)
  show ?thesis
    unfolding packEvent_def list.case Let_def val str hex4 [OF n(1)]
    by (simp add: hexByte_def bytes_digits [OF h, folded n_def])
qed



lemma clamp_range: "0 \<le> clamp b" "clamp b \<le> 100"
  by (simp_all add: clamp_def)

lemma clampBrightness_simps:
  "clampBrightness (Finite b) = Finite (clamp b)"
  "clampBrightness PosInfinity = Finite 100"
  "clampBrightness NegInfinity = Finite 0"
  "clampBrightness NaN = NaN"
  by (simp_all add: clampBrightness_def clamp_def)

lemma toDouble_unit:
  assumes "0 \<le> x" "x \<le> 1"
  shows "toDouble x = Finite (binary64 x)"
proof -
  have "\<bar>binary64 x\<bar> \<le> 1" using binary64_unit [OF assms] by simp
  moreover have "(1::real) < 2 ^ 1024" by simp
  ultimately have "\<not> 2 ^ 1024 \<le> \<bar>binary64 x\<bar>" by linarith
  then show ?thesis by (simp add: toDouble_def)
qed

lemma toDouble_200:
  assumes "0 \<le> y" "y \<le> 200"
  shows "toDouble y = Finite (binary64 y)"
proof -
  have "\<bar>binary64 y\<bar> \<le> 200" using binary64_200 [OF assms] by simp
  moreover have "(200::real) < 2 ^ 1024" by simp
  ultimately have "\<not> 2 ^ 1024 \<le> \<bar>binary64 y\<bar>" by linarith
  then show ?thesis by (simp add: toDouble_def)
qed

lemma scaledBrightness_finite:
  assumes "0 \<le> r" "r \<le> 100"
  shows "Math_round_number (multipliedBy (dividedBy (Finite r) 100) 200) =
           Finite (of_int (Math_round (binary64 (binary64 (r / 100) * 200))))"
proof -
  have a: "0 \<le> binary64 (r / 100)" "binary64 (r / 100) \<le> 1"
    using assms by (intro binary64_unit; simp)+
  have "dividedBy (Finite r) 100 = Finite (binary64 (r / 100))"
    using assms by (simp add: toDouble_unit)
  moreover have "multipliedBy (Finite (binary64 (r / 100))) 200 =
                 Finite (binary64 (binary64 (r / 100) * 200))"
    using a by (simp add: toDouble_200)
  ultimately show ?thesis by simp
qed

lemma ESET_BRIGHTNESS_scaled:
  assumes "0 \<le> r" "r \<le> 100"
  shows "ESET_BRIGHTNESS_number (Math_round_number (multipliedBy (dividedBy (Finite r) 100) 200)) =
           Math_round (binary64 (binary64 (r / 100) * 200))"
  unfolding scaledBrightness_finite [OF assms]
  using scaled_range [OF assms]
  by (simp add: ESET_BRIGHTNESS_number_def ESET_BRIGHTNESS_def Math_round_of_int and_255_self)

lemma ESET_INSTANCE_of_int: "ESET_INSTANCE (of_int i) = push_bit 8 (i AND 255)"
  by (simp add: ESET_INSTANCE_def Math_round_of_int)

lemma ESET_LEVEL_bit: "ESET_LEVEL 1 = 1" "ESET_LEVEL 0 = 0"
  by (simp_all add: ESET_LEVEL_def Math_round_def)

lemma scaled_0: "Math_round (binary64 (binary64 (0 / 100) * 200)) = 0"
  using scaled_integer [of 0] by simp

lemma scaled_100: "Math_round (binary64 (binary64 (100 / 100) * 200)) = 200"
  using scaled_integer [of 100] by simp

lemma packEvent_index_level:
  assumes "0 \<le> l" "l < 256"
  shows "packEvent [ESET_INSTANCE (of_int i), l] =
           Inr (''0x'' @ hexByte (nat (i AND 255)) @ hexByte (nat l))"
  unfolding ESET_INSTANCE_of_int
  using and_255_range [of i] assms by (intro packEvent_bytes) simp_all


lemma dimmer_payload:
  "ESET_BRIGHTNESS_number
     (Math_round_number (multipliedBy (dividedBy (clampBrightness b) 100) 200)) =
   int (dimmerLevel b)"
proof (cases b)
  case (Finite r)
  have "0 \<le> Math_round (binary64 (binary64 (clamp r / 100) * 200))"
    by (rule scaled_range(1) [OF clamp_range])
  then show ?thesis
    unfolding Finite clampBrightness_simps ESET_BRIGHTNESS_scaled [OF clamp_range]
    by (simp add: dimmerLevel_def)
next
  case PosInfinity
  have "ESET_BRIGHTNESS_number
          (Math_round_number (multipliedBy (dividedBy (Finite 100) 100) 200)) = 200"
    using ESET_BRIGHTNESS_scaled [of 100] scaled_100 by simp
  then show ?thesis
    unfolding PosInfinity clampBrightness_simps by (simp add: dimmerLevel_def)
next
  case NegInfinity
  have "ESET_BRIGHTNESS_number
          (Math_round_number (multipliedBy (dividedBy (Finite 0) 100) 200)) = 0"
    using ESET_BRIGHTNESS_scaled [of 0] scaled_0 by simp
  then show ?thesis
    unfolding NegInfinity clampBrightness_simps by (simp add: dimmerLevel_def)
next
  case NaN
  show ?thesis
    unfolding NaN clampBrightness_simps
    by (simp add: dimmerLevel_def ESET_BRIGHTNESS_number_def)
qed

lemma dimmerLevel_byte: "dimmerLevel b \<le> 200"
proof (cases b)
  case (Finite r)
  show ?thesis
    unfolding Finite using scaled_range [OF clamp_range, of r] by (simp add: dimmerLevel_def)
qed (simp_all add: dimmerLevel_def)

lemma switch_payload:
  "(if js_greater (clampBrightness b) (Finite 0) then 1 else 0) = int (switchLevel b)"
  by (cases b) (simp_all add: clampBrightness_simps switchLevel_def)

lemma switchLevel_bit: "switchLevel b \<le> 1"
  by (cases b) (simp_all add: switchLevel_def)

lemma brightnessCommand_wire:
  "brightnessCommand light i (clampBrightness b) = Inr (wireCommand (isDimmer light) i b)"
proof (cases "isDimmer light")
  case True
  have pk: "packEvent [ESET_INSTANCE (of_int i), int (dimmerLevel b)] =
            Inr (''0x'' @ hexByte (nat (i AND 255)) @ hexByte (nat (int (dimmerLevel b))))"
    using dimmerLevel_byte [of b] by (intro packEvent_index_level) simp_all
  show ?thesis
    unfolding brightnessCommand_def wireCommand_def Let_def dimmer_payload pk
    using True by simp
next
  case False
  have l: "ESET_LEVEL (if js_greater (clampBrightness b) (Finite 0) then 1 else 0) =
           int (switchLevel b)"
    using switch_payload [of b] by (simp add: ESET_LEVEL_bit split: if_splits)
  have pk: "packEvent [ESET_INSTANCE (of_int i), int (switchLevel b)] =
            Inr (''0x'' @ hexByte (nat (i AND 255)) @ hexByte (nat (int (switchLevel b))))"
    using switchLevel_bit [of b] by (intro packEvent_index_level) simp_all
  show ?thesis
    unfolding brightnessCommand_def wireCommand_def Let_def l pk
    using False by simp
qed

lemma setLightBrightness_found:
  assumes "map_of (lights c) i = Some light"
  shows "setLightBrightness i b c =
           (True, c\<lparr>sent := sent c @ [wireCommand (isDimmer light) i b],
                    lights := AList.update i (light\<lparr>currentBrightness := clampBrightness b\<rparr>)
                                (lights c)\<rparr>)"
  using assms by (simp add: setLightBrightness_def brightnessCommand_wire sendWSData_def)

lemma setLightBrightness_missing:
  "map_of (lights c) i = None \<Longrightarrow> setLightBrightness i b c = (False, c)"
  by (simp add: setLightBrightness_def)

lemma demo_lights:
  "map_of (lights demoController) 3 = Some ceilingDimmer"
  "map_of (lights demoController) 5 = Some porchSwitch"
  "isDimmer ceilingDimmer" "\<not> isDimmer porchSwitch"
  "sent demoController = []" "map_of (lights demoController) 4 = None"
  by (simp_all add: demoController_def newController_def ceilingDimmer_def porchSwitch_def)

lemma hexByte_values:
  "hexByte 3 = ''03''" "hexByte 5 = ''05''" "hexByte 74 = ''4A''" "hexByte 1 = ''01''"
  "hexByte 0 = ''00''" "hexByte 200 = ''C8''" "hexByte (Suc 0) = ''01''" "hexByte 14 = ''0E''"
  "hexByte 120 = ''78''"
  by (simp_all add: hexByte_def hexDigitUpper_def)

lemma scaled_7_25_clamped:
  "Math_round (binary64 (binary64 (clamp (29 / 4) / 100) * 200)) = 14"
proof -
  have "clamp (29 / 4) = 29 / 4" by (simp add: clamp_def)
  then show ?thesis by (simp only: scaled_7_25)
qed

text \<open>
  Claim C10.  For a light in the registry, \<open>setLightBrightness(i, b)\<close> transmits, for a
  dimmer, a \<open>SET_BRIGHTNESS_NONSCALED\<close> command whose packed low byte is
  \<open>round(clamp(b,0,100) / 100 * 200)\<close>, the division and the multiplication being those
  of double arithmetic: a value from 0 to 200, equal to twice the percentage for every
  whole percentage.  For a switch it transmits a \<open>TURN_ON_OFF\<close> command whose level is 1
  when the clamped brightness is greater than 0 and 0 otherwise.  The high byte is the low
  byte of the light index.  Plus infinity is sent as 100 percent; minus infinity and
  \<open>NaN\<close> are sent as 0.
\<close>

theorem setLightBrightness_wire_scale:
  assumes "map_of (lights c) i = Some light"
  shows "sent (snd (setLightBrightness i (Finite b) c)) =
           sent c @
           [if isDimmer light
            then ''HMSEVENT=ENEWMARDIMMERPARSER_SET_BRIGHTNESS_NONSCALED|0x'' @
                 hexByte (nat (i AND 0xFF)) @
                 hexByte (nat (Math_round (binary64 (binary64 (clamp b / 100) * 200))))
            else ''HMSEVENT=ENEWMARDIMMERPARSER_TURN_ON_OFF|0x'' @
                 hexByte (nat (i AND 0xFF)) @
                 hexByte (if clamp b > 0 then 1 else 0)] \<and>
         0 \<le> Math_round (binary64 (binary64 (clamp b / 100) * 200)) \<and>
         Math_round (binary64 (binary64 (clamp b / 100) * 200)) \<le> 200 \<and>
         (n \<le> 100 \<longrightarrow>
            Math_round (binary64 (binary64 (clamp (real n) / 100) * 200)) = 2 * int n) \<and>
         sent (snd (setLightBrightness i PosInfinity c)) =
           sent (snd (setLightBrightness i (Finite 100) c)) \<and>
         sent (snd (setLightBrightness i NegInfinity c)) =
           sent (snd (setLightBrightness i (Finite 0) c)) \<and>
         sent (snd (setLightBrightness i NaN c)) =
           sent (snd (setLightBrightness i (Finite 0) c))"
proof (intro conjI impI)
  show "sent (snd (setLightBrightness i (Finite b) c)) =
           sent c @
           [if isDimmer light
            then ''HMSEVENT=ENEWMARDIMMERPARSER_SET_BRIGHTNESS_NONSCALED|0x'' @
                 hexByte (nat (i AND 0xFF)) @
                 hexByte (nat (Math_round (binary64 (binary64 (clamp b / 100) * 200))))
            else ''HMSEVENT=ENEWMARDIMMERPARSER_TURN_ON_OFF|0x'' @
                 hexByte (nat (i AND 0xFF)) @
                 hexByte (if clamp b > 0 then 1 else 0)]"
    by (simp add: setLightBrightness_found [OF assms] wireCommand_def dimmerLevel_def
        switchLevel_def)
  show "0 \<le> Math_round (binary64 (binary64 (clamp b / 100) * 200))"
    by (rule scaled_range(1) [OF clamp_range])
  show "Math_round (binary64 (binary64 (clamp b / 100) * 200)) \<le> 200"
    by (rule scaled_range(2) [OF clamp_range])
  show "Math_round (binary64 (binary64 (clamp (real n) / 100) * 200)) = 2 * int n"
    if "n \<le> 100"
  proof -
    have "clamp (real n) = real n" using that by (simp add: clamp_def)
    then show ?thesis using scaled_integer [OF that] by simp
  qed
  have zero: "dimmerLevel (Finite 0) = 0" "switchLevel (Finite 0) = 0"
    using scaled_0 by (simp_all add: dimmerLevel_def switchLevel_def clamp_def)
  have full: "dimmerLevel (Finite 100) = 200" "switchLevel (Finite 100) = 1"
    using scaled_100 by (simp_all add: dimmerLevel_def switchLevel_def clamp_def)
  show "sent (snd (setLightBrightness i PosInfinity c)) =
           sent (snd (setLightBrightness i (Finite 100) c))"
    by (simp add: setLightBrightness_found [OF assms] wireCommand_def full)
       (simp add: dimmerLevel_def switchLevel_def)
  show "sent (snd (setLightBrightness i NegInfinity c)) =
           sent (snd (setLightBrightness i (Finite 0) c))"
    by (simp add: setLightBrightness_found [OF assms] wireCommand_def zero)
       (simp add: dimmerLevel_def switchLevel_def)
  show "sent (snd (setLightBrightness i NaN c)) =
           sent (snd (setLightBrightness i (Finite 0) c))"
    by (simp add: setLightBrightness_found [OF assms] wireCommand_def zero)
       (simp add: dimmerLevel_def switchLevel_def)
qed

theorem setLightBrightness_wire_scale_witness:
  "map_of (lights demoController) 3 = Some ceilingDimmer \<and>
   sent (snd (setLightBrightness 3 (Finite (29 / 4)) demoController)) =
     [''HMSEVENT=ENEWMARDIMMERPARSER_SET_BRIGHTNESS_NONSCALED|0x030E''] \<and>
   sent (snd (setLightBrightness 3 (Finite 37) demoController)) =
     [''HMSEVENT=ENEWMARDIMMERPARSER_SET_BRIGHTNESS_NONSCALED|0x034A''] \<and>
   sent (snd (setLightBrightness 3 NaN demoController)) =
     [''HMSEVENT=ENEWMARDIMMERPARSER_SET_BRIGHTNESS_NONSCALED|0x0300''] \<and>
   map_of (lights demoController) 5 = Some porchSwitch \<and>
   sent (snd (setLightBrightness 5 (Finite 250) demoController)) =
     [''HMSEVENT=ENEWMARDIMMERPARSER_TURN_ON_OFF|0x0501''] \<and>
   sent (snd (setLightBrightness 5 (Finite (- 4)) demoController)) =
     [''HMSEVENT=ENEWMARDIMMERPARSER_TURN_ON_OFF|0x0500'']"
proof -
  note d = setLightBrightness_wire_scale [OF demo_lights(1)]
  note s = setLightBrightness_wire_scale [OF demo_lights(2)]
  have a: "sent (snd (setLightBrightness 3 (Finite (29 / 4)) demoController)) =
     [''HMSEVENT=ENEWMARDIMMERPARSER_SET_BRIGHTNESS_NONSCALED|0x030E'']"
    using d [of "29 / 4" 0, THEN conjunct1]
    unfolding scaled_7_25_clamped by (simp add: demo_lights hexByte_values)
  have c37: "clamp (real 37) = 37" "clamp 37 = 37" "clamp 0 = 0" "clamp (real 0) = 0"
    by (simp_all add: clamp_def)
  have b37: "Math_round (binary64 (binary64 (clamp 37 / 100) * 200)) = 74"
    using d [of 0 37] unfolding c37 by simp
  have b0: "Math_round (binary64 (binary64 (clamp 0 / 100) * 200)) = 0"
    using d [of 0 0] unfolding c37 by simp
  have b: "sent (snd (setLightBrightness 3 (Finite 37) demoController)) =
     [''HMSEVENT=ENEWMARDIMMERPARSER_SET_BRIGHTNESS_NONSCALED|0x034A'']"
    using d [of 37 0, THEN conjunct1]
    unfolding b37 by (simp add: demo_lights hexByte_values)
  have z: "sent (snd (setLightBrightness 3 (Finite 0) demoController)) =
     [''HMSEVENT=ENEWMARDIMMERPARSER_SET_BRIGHTNESS_NONSCALED|0x0300'']"
    using d [of 0 0, THEN conjunct1]
    unfolding b0 by (simp add: demo_lights hexByte_values)
  have n: "sent (snd (setLightBrightness 3 NaN demoController)) =
     [''HMSEVENT=ENEWMARDIMMERPARSER_SET_BRIGHTNESS_NONSCALED|0x0300'']"
    using d [of 0 0] z by simp
  have p: "sent (snd (setLightBrightness 5 (Finite 250) demoController)) =
     [''HMSEVENT=ENEWMARDIMMERPARSER_TURN_ON_OFF|0x0501'']"
    using s [of 250 0, THEN conjunct1] by (simp add: demo_lights hexByte_values clamp_def)
  have q: "sent (snd (setLightBrightness 5 (Finite (- 4)) demoController)) =
     [''HMSEVENT=ENEWMARDIMMERPARSER_TURN_ON_OFF|0x0500'']"
    using s [of "- 4" 0, THEN conjunct1] by (simp add: demo_lights hexByte_values clamp_def)
  show ?thesis using a b n p q demo_lights(1,2) by simp
qed

lemma clampBrightness_range:
  assumes "b \<noteq> NaN"
  shows "\<exists>r. clampBrightness b = Finite r \<and> 0 \<le> r \<and> r \<le> 100"
  using assms by (cases b) (simp_all add: clampBrightness_simps clamp_range)

lemma setLightBrightness_cached_range:
  assumes "map_of (lights c) i = Some light" "b \<noteq> NaN"
  shows "\<exists>r. map_option currentBrightness
                (map_of (lights (snd (setLightBrightness i b c))) i) = Some (Finite r) \<and>
             0 \<le> r \<and> r \<le> 100"
  using clampBrightness_range [OF assms(2)]
  by (auto simp: setLightBrightness_found [OF assms(1)] update_conv)

section \<open>Properties of scenes\<close>

lemma setLightBrightness_fst:
  "fst (setLightBrightness i b c) \<longleftrightarrow> map_of (lights c) i \<noteq> None"
  by (cases "map_of (lights c) i")
     (simp_all add: setLightBrightness_missing setLightBrightness_found)

lemma setLightBrightness_keys:
  "map_of (lights (snd (setLightBrightness i b c))) k = None \<longleftrightarrow> map_of (lights c) k = None"
  by (cases "map_of (lights c) i")
     (simp_all add: setLightBrightness_missing setLightBrightness_found update_conv)

lemma appliedCount_keys:
  assumes "\<And>k. map_of (lights c') k = None \<longleftrightarrow> map_of (lights c) k = None"
  shows "appliedCount members c' = appliedCount members c"
  by (simp add: appliedCount_def assms)

lemma applyLightStates_count:
  "fst (applyLightStates members n c) = n + appliedCount members c"
proof (induction members arbitrary: n c)
  case Nil
  show ?case by (simp add: appliedCount_def)
next
  case (Cons m ms)
  obtain ok c1 where r: "setLightBrightness (state_index m) (state_brightness m) c = (ok, c1)"
    by (cases "setLightBrightness (state_index m) (state_brightness m) c")
  have ok: "ok \<longleftrightarrow> map_of (lights c) (state_index m) \<noteq> None"
    using setLightBrightness_fst [of "state_index m" "state_brightness m" c] r by simp
  have "appliedCount ms c1 = appliedCount ms c"
    using setLightBrightness_keys [of "state_index m" "state_brightness m" c] r
    by (intro appliedCount_keys) simp
  then have tail: "appliedCount (m # ms) c = (if ok then 1 else 0) + appliedCount ms c1"
    by (simp add: appliedCount_def ok)
  show ?case
    by (cases ok) (simp_all add: r Cons.IH tail)
qed

lemma appliedCount_le: "appliedCount members c \<le> length members"
  by (simp add: appliedCount_def)

lemma appliedCount_less:
  assumes "m \<in> set members" "map_of (lights c) (state_index m) = None"
  shows "appliedCount members c < length members"
  unfolding appliedCount_def
  using assms by (intro length_filter_less [of m]) simp_all

lemma loadScene_found:
  assumes "scenes c name = Some scene"
  shows "fst (loadScene name c) \<longleftrightarrow> 0 < appliedCount (scene_lights scene) c"
  using applyLightStates_count [of "scene_lights scene" 0 c]
  by (cases "applyLightStates (scene_lights scene) 0 c") (simp add: loadScene_def assms)

text \<open>
  Claim C2, amended.  \<open>loadScene\<close> returns a boolean: \<open>false\<close> for an unknown scene,
  otherwise whether at least one member was applied.  Its internal success count is the
  number of members whose device is in the registry: members whose device is missing are
  skipped without an exception, and the count is strictly less than the number of members
  as soon as one member refers to a missing device.  The count itself is not returned.
\<close>

theorem loadScene_boolean_result:
  "(scenes c name = None \<longrightarrow> loadScene name c = (False, c)) \<and>
   (\<forall>scene. scenes c name = Some scene \<longrightarrow>
      fst (applyLightStates (scene_lights scene) 0 c) = appliedCount (scene_lights scene) c \<and>
      fst (loadScene name c) = (0 < appliedCount (scene_lights scene) c) \<and>
      appliedCount (scene_lights scene) c \<le> length (scene_lights scene) \<and>
      ((\<exists>m\<in>set (scene_lights scene). map_of (lights c) (state_index m) = None) \<longrightarrow>
         appliedCount (scene_lights scene) c < length (scene_lights scene)))"
proof (intro conjI allI impI)
  assume "scenes c name = None"
  then show "loadScene name c = (False, c)" by (simp add: loadScene_def)
next
  fix scene
  assume s: "scenes c name = Some scene"
  show "fst (applyLightStates (scene_lights scene) 0 c) = appliedCount (scene_lights scene) c"
    by (simp add: applyLightStates_count)
  show "fst (loadScene name c) = (0 < appliedCount (scene_lights scene) c)"
    by (rule loadScene_found [OF s])
  show "appliedCount (scene_lights scene) c \<le> length (scene_lights scene)"
    by (rule appliedCount_le)
  assume "\<exists>m\<in>set (scene_lights scene). map_of (lights c) (state_index m) = None"
  then show "appliedCount (scene_lights scene) c < length (scene_lights scene)"
    by (auto intro: appliedCount_less)
qed

lemma scene_demo:
  "scenes sceneController ''Evening'' = Some eveningScene"
  "scenes sceneController ''Bright'' = Some brightScene"
  "scenes sceneController ''Dawn'' = None"
  "lights sceneController = lights demoController"
  by (simp_all add: sceneController_def)

lemma demo_missing: "map_of (lights demoController) 9 = None"
  by (simp add: demoController_def)

lemma appliedCount_demo:
  "appliedCount (scene_lights eveningScene) sceneController = 1"
  "appliedCount (scene_lights brightScene) sceneController = 2"
  by (simp_all add: appliedCount_def eveningScene_def brightScene_def scene_demo demo_lights
      demo_missing)

theorem loadScene_boolean_result_witness:
  "scenes sceneController ''Dawn'' = None \<and>
   loadScene ''Dawn'' sceneController = (False, sceneController) \<and>
   scenes sceneController ''Evening'' = Some eveningScene \<and>
   (\<exists>m\<in>set (scene_lights eveningScene). map_of (lights sceneController) (state_index m) = None) \<and>
   fst (loadScene ''Evening'' sceneController) \<and>
   appliedCount (scene_lights eveningScene) sceneController < length (scene_lights eveningScene)"
proof -
  have m: "\<exists>m\<in>set (scene_lights eveningScene). map_of (lights sceneController) (state_index m) = None"
    by (simp add: eveningScene_def scene_demo demo_missing)
  show ?thesis
    using loadScene_boolean_result [of sceneController "''Dawn''"]
          loadScene_boolean_result [of sceneController "''Evening''"] m
    by (simp add: scene_demo(1-3) appliedCount_demo)
qed

text \<open>
  Claim C2, as stated, fails: loading a two-member scene with one missing device applies
  one member, loading a two-member scene with both devices present applies two, and both
  calls return the same value \<open>true\<close>; the value returned is not the applied count and
  does not reveal the partial application.
\<close>

theorem loadScene_returns_no_count:
  "length (scene_lights eveningScene) = 2 \<and>
   fst (applyLightStates (scene_lights eveningScene) 0 sceneController) = 1 \<and>
   fst (loadScene ''Evening'' sceneController) = True \<and>
   length (scene_lights brightScene) = 2 \<and>
   fst (applyLightStates (scene_lights brightScene) 0 sceneController) = 2 \<and>
   fst (loadScene ''Bright'' sceneController) = True"
  by (simp add: applyLightStates_count appliedCount_demo loadScene_found [OF scene_demo(1)]
      loadScene_found [OF scene_demo(2)])
     (simp add: eveningScene_def brightScene_def)

lemma captureLightStates_members:
  "map state_index (fst (captureLightStates ls roomFilter replies c)) =
   map light_index (filter (passesFilter roomFilter) ls)"
proof (induction ls arbitrary: c)
  case Nil
  show ?case by simp
next
  case (Cons l ls)
  show ?case
  proof (cases "passesFilter roomFilter l")
    case True
    then have "\<not> (roomFilter \<noteq> None \<and> Some (light_room l) \<noteq> roomFilter)"
      by (auto simp: passesFilter_def)
    then show ?thesis
      using True Cons.IH by (simp add: Let_def split: prod.splits) (metis fst_conv)
  next
    case False
    then have "roomFilter \<noteq> None \<and> Some (light_room l) \<noteq> roomFilter"
      by (auto simp: passesFilter_def)
    then show ?thesis
      using False Cons.IH by simp
  qed
qed

lemma saveScene_stored:
  assumes "isInitialized c" "sceneName \<noteq> []"
  shows "fst (saveScene sceneName roomFilter created replies c) \<and>
         scenes (snd (saveScene sceneName roomFilter created replies c)) sceneName =
           Some \<lparr>scene_name = sceneName, scene_created = created, scene_room = roomFilter,
                 scene_lights = fst (captureLightStates (map snd (lights c)) roomFilter replies c)\<rparr>"
  using assms
  by (cases "captureLightStates (map snd (lights c)) roomFilter replies c")
     (simp add: saveScene_def)

text \<open>
  Claim C5, amended.  On an initialized controller and for a non-empty scene name,
  \<open>saveScene\<close> succeeds and stores a scene with exactly one member per registry device
  that passes the room filter, in registry order; the stored member list is empty exactly
  when no device passes the filter.
\<close>

theorem saveScene_members:
  assumes "isInitialized c" "sceneName \<noteq> []"
  shows "\<exists>scene. fst (saveScene sceneName roomFilter created replies c) \<and>
           scenes (snd (saveScene sceneName roomFilter created replies c)) sceneName = Some scene \<and>
           map state_index (scene_lights scene) =
             map light_index (filter (passesFilter roomFilter) (map snd (lights c))) \<and>
           (scene_lights scene = [] \<longleftrightarrow>
              \<not> (\<exists>light\<in>set (map snd (lights c)). passesFilter roomFilter light))"
proof -
  let ?members = "fst (captureLightStates (map snd (lights c)) roomFilter replies c)"
  have m: "map state_index ?members =
           map light_index (filter (passesFilter roomFilter) (map snd (lights c)))"
    by (rule captureLightStates_members)
  have "?members = [] \<longleftrightarrow> filter (passesFilter roomFilter) (map snd (lights c)) = []"
    using m by (metis map_is_Nil_conv)
  then have e: "?members = [] \<longleftrightarrow>
                \<not> (\<exists>light\<in>set (map snd (lights c)). passesFilter roomFilter light)"
    by (simp add: filter_empty_conv)
  show ?thesis
    using saveScene_stored [OF assms, of roomFilter created replies] m e by simp
qed

lemma demo_initialized: "isInitialized demoController" "map snd (lights demoController) = [ceilingDimmer, porchSwitch]"
  by (simp_all add: demoController_def)

lemma demo_rooms: "\<not> passesFilter (Some 2) ceilingDimmer" "\<not> passesFilter (Some 2) porchSwitch"
  "passesFilter (Some 5) porchSwitch" "\<not> passesFilter (Some 5) ceilingDimmer"
  by (simp_all add: passesFilter_def ceilingDimmer_def porchSwitch_def)

lemma demo_index: "light_index porchSwitch = 5" "light_index ceilingDimmer = 3"
  by (simp_all add: ceilingDimmer_def porchSwitch_def)

theorem saveScene_members_witness:
  "isInitialized demoController \<and> ''Outside'' \<noteq> [] \<and>
   (\<exists>scene. fst (saveScene ''Outside'' (Some 5) ''2024-05-01T19:00:00.000Z'' (\<lambda>i. None) demoController) \<and>
      scenes (snd (saveScene ''Outside'' (Some 5) ''2024-05-01T19:00:00.000Z'' (\<lambda>i. None) demoController))
         ''Outside'' = Some scene \<and>
      map state_index (scene_lights scene) = [5] \<and> scene_lights scene \<noteq> [])"
proof -
  have n: "''Outside'' \<noteq> []" by simp
  show ?thesis
    using saveScene_members [OF demo_initialized(1) n, of "Some 5" "''2024-05-01T19:00:00.000Z''" "\<lambda>i. None"]
    by (auto simp: demo_initialized demo_rooms demo_index)
qed

text \<open>
  Claim C5, as stated, fails: with a living-room dimmer and an exterior switch in the
  registry, saving a scene filtered on room 2 succeeds and stores a scene whose member
  list is empty.
\<close>

theorem saveScene_stores_empty_scene:
  "fst (saveScene ''Bedroom'' (Some 2) ''2024-05-01T19:00:00.000Z'' (\<lambda>i. None) demoController) \<and>
   map_option scene_lights
     (scenes (snd (saveScene ''Bedroom'' (Some 2) ''2024-05-01T19:00:00.000Z'' (\<lambda>i. None) demoController))
        ''Bedroom'') = Some []"
proof -
  have n: "''Bedroom'' \<noteq> []" by simp
  have "fst (captureLightStates [ceilingDimmer, porchSwitch] (Some 2) (\<lambda>i. None) demoController) = []"
    by (simp add: ceilingDimmer_def porchSwitch_def)
  then show ?thesis
    using saveScene_stored [OF demo_initialized(1) n, of "Some 2" "''2024-05-01T19:00:00.000Z''" "\<lambda>i. None"]
    by (simp add: demo_initialized(2))
qed

lemma night_capture:
  "fst (captureLightStates [ceilingDimmer, porchSwitch] None statusReplies demoController) =
     [\<lparr>state_index = 3, state_name = light_name ceilingDimmer, state_brightness = NaN,
       state_room = 0\<rparr>,
      \<lparr>state_index = 5, state_name = light_name porchSwitch, state_brightness = Finite 0,
       state_room = 5\<rparr>]"
  "lights (snd (captureLightStates [ceilingDimmer, porchSwitch] None statusReplies
                  demoController)) =
     [(3, ceilingDimmer\<lparr>currentBrightness := NaN\<rparr>), (5, porchSwitch)]"
  by (simp_all add: getCurrentBrightness_def sendWSData_def demoController_def Let_def
       ceilingDimmer_def porchSwitch_def statusReplies_def)

lemma night_scene:
  "scenes nightController ''Night'' =
     Some \<lparr>scene_name = ''Night'', scene_created = ''2024-05-01T22:00:00.000Z'',
           scene_room = None,
           scene_lights =
             [\<lparr>state_index = 3, state_name = light_name ceilingDimmer,
               state_brightness = NaN, state_room = 0\<rparr>,
              \<lparr>state_index = 5, state_name = light_name porchSwitch,
               state_brightness = Finite 0, state_room = 5\<rparr>]\<rparr>"
  "lights nightController = [(3, ceilingDimmer\<lparr>currentBrightness := NaN\<rparr>), (5, porchSwitch)]"
proof -
  have n: "''Night'' \<noteq> []" by simp
  show "scenes nightController ''Night'' =
     Some \<lparr>scene_name = ''Night'', scene_created = ''2024-05-01T22:00:00.000Z'',
           scene_room = None,
           scene_lights =
             [\<lparr>state_index = 3, state_name = light_name ceilingDimmer,
               state_brightness = NaN, state_room = 0\<rparr>,
              \<lparr>state_index = 5, state_name = light_name porchSwitch,
               state_brightness = Finite 0, state_room = 5\<rparr>]\<rparr>"
    unfolding nightController_def
    by (rule saveScene_stored [OF demo_initialized(1) n, of None "''2024-05-01T22:00:00.000Z''"
        statusReplies, unfolded demo_initialized(2) night_capture(1), THEN conjunct2])
  show "lights nightController =
          [(3, ceilingDimmer\<lparr>currentBrightness := NaN\<rparr>), (5, porchSwitch)]"
  proof -
    obtain ms c1 where
      r: "captureLightStates [ceilingDimmer, porchSwitch] None statusReplies demoController =
            (ms, c1)"
      by (cases "captureLightStates [ceilingDimmer, porchSwitch] None statusReplies
                   demoController")
    have "lights c1 = [(3, ceilingDimmer\<lparr>currentBrightness := NaN\<rparr>), (5, porchSwitch)]"
      using night_capture(2) unfolding r by simp
    then show ?thesis
      unfolding nightController_def saveScene_def demo_initialized(2) r
      by (simp add: demo_initialized(1))
  qed
qed

lemma night_first:
  "map_of (lights nightController) 3 = Some (ceilingDimmer\<lparr>currentBrightness := NaN\<rparr>)"
  by (simp add: night_scene(2))

lemma night_load:
  "fst (loadScene ''Night'' nightController)"
  "map_option currentBrightness
     (map_of (lights (snd (loadScene ''Night'' nightController))) 3) = Some NaN"
proof -
  have a: "0 < appliedCount [\<lparr>state_index = 3, state_name = light_name ceilingDimmer,
               state_brightness = NaN, state_room = 0\<rparr>,
              \<lparr>state_index = 5, state_name = light_name porchSwitch,
               state_brightness = Finite 0, state_room = 5\<rparr>] nightController"
    by (simp add: appliedCount_def night_scene(2))
  show "fst (loadScene ''Night'' nightController)"
    using loadScene_found [OF night_scene(1)] a by simp
  define c1 where "c1 = snd (setLightBrightness 3 NaN nightController)"
  have l1: "lights c1 = [(3, ceilingDimmer\<lparr>currentBrightness := NaN\<rparr>), (5, porchSwitch)]"
    unfolding c1_def
    by (simp add: setLightBrightness_found [OF night_first] night_scene(2)
        clampBrightness_simps)
  have f1: "setLightBrightness 3 NaN nightController = (True, c1)"
    unfolding c1_def by (simp add: setLightBrightness_found [OF night_first] prod_eq_iff)
  have m5: "map_of (lights c1) 5 = Some porchSwitch" by (simp add: l1)
  define c2 where "c2 = snd (setLightBrightness 5 (Finite 0) c1)"
  have f2: "setLightBrightness 5 (Finite 0) c1 = (True, c2)"
    unfolding c2_def by (simp add: setLightBrightness_found [OF m5] prod_eq_iff)
  have l2: "map_option currentBrightness (map_of (lights c2) 3) = Some NaN"
    unfolding c2_def by (simp add: setLightBrightness_found [OF m5] l1 update_conv)
  have "snd (loadScene ''Night'' nightController) = c2"
    by (simp add: loadScene_def night_scene(1) f1 f2)
  then show "map_option currentBrightness
     (map_of (lights (snd (loadScene ''Night'' nightController))) 3) = Some NaN"
    using l2 by simp
qed

text \<open>
  Claim C6 holds for every brightness except \<open>NaN\<close>, which \<open>Math.min\<close> and
  \<open>Math.max\<close> pass through: \<open>setLightBrightness(3, NaN)\<close> on the installation succeeds,
  transmits payload 0 and caches \<open>NaN\<close> as \<open>currentBrightness\<close>, a value that is not
  within \<open>[0,100]\<close>.  The controller makes that call itself: a save during which the
  dimmer answers its status request with a text that is not a number stores \<open>NaN\<close> as the
  level of the member, and loading the saved scene passes it to \<open>setLightBrightness\<close>,
  after which the cached level of the dimmer is \<open>NaN\<close>.
\<close>

theorem setLightBrightness_caches_NaN:
  "fst (setLightBrightness 3 NaN demoController) \<and>
   sent (snd (setLightBrightness 3 NaN demoController)) =
     [''HMSEVENT=ENEWMARDIMMERPARSER_SET_BRIGHTNESS_NONSCALED|0x0300''] \<and>
   map_option currentBrightness
     (map_of (lights (snd (setLightBrightness 3 NaN demoController))) 3) = Some NaN \<and>
   map_option (map state_brightness \<circ> scene_lights) (scenes nightController ''Night'') =
     Some [NaN, Finite 0] \<and>
   fst (loadScene ''Night'' nightController) \<and>
   map_option currentBrightness
     (map_of (lights (snd (loadScene ''Night'' nightController))) 3) = Some NaN"
  by (simp add: setLightBrightness_found [OF demo_lights(1)] demo_lights wireCommand_def
      dimmerLevel_def hexByte_values clampBrightness_simps update_conv night_scene(1)
      night_load)

section \<open>Properties of schedules\<close>



lemma update_registry_shape:
  assumes "map_of registry i = Some light"
  shows "map (\<lambda>(k, l). (k, light_index l, isDimmer l))
           (AList.update i (light\<lparr>currentBrightness := b\<rparr>) registry) =
         map (\<lambda>(k, l). (k, light_index l, isDimmer l)) registry"
  using assms by (induction registry) (auto split: if_splits)

lemma cacheLevels_Nil: "cacheLevels [] registry = registry"
  by (simp add: cacheLevels_def)

lemma cacheLevels_Cons:
  "cacheLevels ((i, b) # targets) registry =
     cacheLevels targets
       (case map_of registry i of
          None \<Rightarrow> registry
        | Some light \<Rightarrow> AList.update i (light\<lparr>currentBrightness := clampBrightness b\<rparr>) registry)"
  by (simp add: cacheLevels_def)

lemma cacheLevels_append:
  "cacheLevels (xs @ ys) registry = cacheLevels ys (cacheLevels xs registry)"
  by (simp add: cacheLevels_def)

lemma cacheLevels_shape:
  "map (\<lambda>(k, l). (k, light_index l, isDimmer l)) (cacheLevels targets registry) =
   map (\<lambda>(k, l). (k, light_index l, isDimmer l)) registry"
proof (induction targets arbitrary: registry)
  case Nil
  show ?case by (simp add: cacheLevels_Nil)
next
  case (Cons t targets)
  obtain i b where t: "t = (i, b)" by (cases t)
  show ?case
    unfolding t cacheLevels_Cons
    by (cases "map_of registry i") (simp_all add: Cons.IH update_registry_shape)
qed

lemma shape_isDimmer:
  assumes "map (\<lambda>(k, l). (k, light_index l, isDimmer l)) r' =
           map (\<lambda>(k, l). (k, light_index l, isDimmer l)) r"
  shows "map_option isDimmer (map_of r' k) = map_option isDimmer (map_of r k)"
proof -
  have m: "map_option isDimmer (map_of x k) =
           map_option snd (map_of (map (\<lambda>(k, l). (k, light_index l, isDimmer l)) x) k)" for x
    by (induction x) auto
  show ?thesis unfolding m assms ..
qed


lemma targetCommands_shape:
  assumes "map (\<lambda>(k, l). (k, light_index l, isDimmer l)) r' =
           map (\<lambda>(k, l). (k, light_index l, isDimmer l)) r"
  shows "targetCommands r' targets = targetCommands r targets"
proof -
  have c: "(case map_of x i of None \<Rightarrow> [] | Some light \<Rightarrow> [wireCommand (isDimmer light) i b]) =
           (case map_option isDimmer (map_of x i) of
              None \<Rightarrow> [] | Some d \<Rightarrow> [wireCommand d i b])" for x i b
    by (cases "map_of x i") simp_all
  show ?thesis
    unfolding targetCommands_def c shape_isDimmer [OF assms] ..
qed

lemma targetCommands_Nil: "targetCommands registry [] = []"
  by (simp add: targetCommands_def)

lemma targetCommands_Cons:
  "targetCommands registry ((i, b) # targets) =
     (case map_of registry i of
        None \<Rightarrow> []
      | Some light \<Rightarrow> [wireCommand (isDimmer light) i b]) @ targetCommands registry targets"
  by (simp add: targetCommands_def)

lemma targetCommands_append:
  "targetCommands registry (xs @ ys) = targetCommands registry xs @ targetCommands registry ys"
  by (simp add: targetCommands_def)

lemma applyTargets_Nil: "applyTargets [] c = c"
  by (simp add: applyTargets_def)

lemma applyTargets_Cons:
  "applyTargets ((i, b) # targets) c = applyTargets targets (snd (setLightBrightness i b c))"
  by (simp add: applyTargets_def)


lemma applyTargets_closed:
  "applyTargets targets c =
     c\<lparr>sent := sent c @ targetCommands (lights c) targets,
       lights := cacheLevels targets (lights c)\<rparr>"
proof (induction targets arbitrary: c)
  case Nil
  show ?case by (simp add: applyTargets_Nil targetCommands_Nil cacheLevels_Nil)
next
  case (Cons t targets)
  obtain i b where t: "t = (i, b)" by (cases t)
  show ?case
  proof (cases "map_of (lights c) i")
    case None
    then show ?thesis
      unfolding t applyTargets_Cons targetCommands_Cons cacheLevels_Cons
      by (simp add: setLightBrightness_missing Cons.IH)
  next
    case (Some light)
    have shape: "targetCommands
                   (AList.update i (light\<lparr>currentBrightness := clampBrightness b\<rparr>) (lights c))
                   targets = targetCommands (lights c) targets"
      by (rule targetCommands_shape) (rule update_registry_shape [OF Some])
    show ?thesis
      unfolding t applyTargets_Cons targetCommands_Cons cacheLevels_Cons
      by (simp add: setLightBrightness_found [OF Some] Cons.IH Some shape)
  qed
qed

lemma applyTargets_lights:
  "lights (applyTargets targets c) = cacheLevels targets (lights c)"
  by (simp add: applyTargets_closed)



lemma applyTargets_commands:
  "targetCommands (lights (applyTargets targets c)) ts = targetCommands (lights c) ts"
  unfolding applyTargets_lights by (rule targetCommands_shape [OF cacheLevels_shape])





















lemma schedule_invI:
  assumes "0 < nextHandle c" "distinct (map fst (intervals c))"
    "\<And>h n. (h, n) \<in> set (intervals c) \<Longrightarrow>
        0 < h \<and> h < nextHandle c \<and> scheduleIntervals c n = Some h"
    "\<And>n h. scheduleIntervals c n = Some h \<Longrightarrow> (h, n) \<in> set (intervals c)"
    "\<And>n. n \<in> activeSchedules c \<longleftrightarrow> scheduleIntervals c n \<noteq> None"
    "\<And>n. n \<in> activeSchedules c \<Longrightarrow> schedules c n \<noteq> None"
  shows "schedule_inv c"
  unfolding schedule_inv_def
  apply (intro conjI allI impI)
         apply (rule assms(1))
        apply (rule assms(2))
       apply (erule assms(3) [THEN conjunct1])
      apply (erule assms(3) [THEN conjunct2, THEN conjunct1])
     apply (erule assms(3) [THEN conjunct2, THEN conjunct2])
    apply (erule assms(4))
   apply (rule assms(5))
  apply (erule assms(6))
  done

lemma schedule_invD:
  assumes "schedule_inv c"
  shows "0 < nextHandle c" "distinct (map fst (intervals c))"
    "\<And>h n. (h, n) \<in> set (intervals c) \<Longrightarrow>
        0 < h \<and> h < nextHandle c \<and> scheduleIntervals c n = Some h"
    "\<And>n h. scheduleIntervals c n = Some h \<Longrightarrow> (h, n) \<in> set (intervals c)"
    "\<And>n. n \<in> activeSchedules c \<longleftrightarrow> scheduleIntervals c n \<noteq> None"
    "\<And>n. n \<in> activeSchedules c \<Longrightarrow> schedules c n \<noteq> None"
proof -
  from assms have a:
    "0 < nextHandle c \<and>
     distinct (map fst (intervals c)) \<and>
     (\<forall>h n. (h, n) \<in> set (intervals c) \<longrightarrow>
        0 < h \<and> h < nextHandle c \<and> scheduleIntervals c n = Some h) \<and>
     (\<forall>n h. scheduleIntervals c n = Some h \<longrightarrow> (h, n) \<in> set (intervals c)) \<and>
     (\<forall>n. n \<in> activeSchedules c \<longleftrightarrow> scheduleIntervals c n \<noteq> None) \<and>
     (\<forall>n. n \<in> activeSchedules c \<longrightarrow> schedules c n \<noteq> None)"
    unfolding schedule_inv_def .
  show "0 < nextHandle c" by (rule a [THEN conjunct1])
  show "distinct (map fst (intervals c))" by (rule a [THEN conjunct2, THEN conjunct1])
  show "\<And>h n. (h, n) \<in> set (intervals c) \<Longrightarrow>
        0 < h \<and> h < nextHandle c \<and> scheduleIntervals c n = Some h"
    by (rule a [THEN conjunct2, THEN conjunct2, THEN conjunct1, rule_format])
  show "\<And>n h. scheduleIntervals c n = Some h \<Longrightarrow> (h, n) \<in> set (intervals c)"
    by (rule a [THEN conjunct2, THEN conjunct2, THEN conjunct2, THEN conjunct1, rule_format])
  show "\<And>n. n \<in> activeSchedules c \<longleftrightarrow> scheduleIntervals c n \<noteq> None"
    by (rule a [THEN conjunct2, THEN conjunct2, THEN conjunct2, THEN conjunct2, THEN conjunct1,
          rule_format])
  show "\<And>n. n \<in> activeSchedules c \<Longrightarrow> schedules c n \<noteq> None"
    by (rule a [THEN conjunct2, THEN conjunct2, THEN conjunct2, THEN conjunct2, THEN conjunct2,
          rule_format])
qed

lemma schedule_inv_new: "schedule_inv (newController savedScenes savedSchedules)"
  by (simp add: schedule_inv_def newController_def)

lemma activateSchedule_active:
  assumes "schedule_inv c" "n \<in> activeSchedules c"
  shows "activateSchedule n c = (True, c)"
proof -
  from schedule_invD(6) [OF assms] obtain s where "schedules c n = Some s"
    by blast
  with assms(2) show ?thesis by (simp add: activateSchedule_def)
qed

lemma activateSchedule_fresh:
  assumes "schedules c n = Some s" "n \<notin> activeSchedules c"
  shows "snd (activateSchedule n c) =
           c\<lparr>activeSchedules := insert n (activeSchedules c),
             intervals := intervals c @ [(nextHandle c, n)],
             nextHandle := Suc (nextHandle c),
             scheduleIntervals := (scheduleIntervals c)(n \<mapsto> nextHandle c)\<rparr>"
  using assms by (simp add: activateSchedule_def setInterval_def)

lemma schedule_inv_activate:
  assumes "schedule_inv c"
  shows "schedule_inv (snd (activateSchedule n c))"
proof (cases "schedules c n")
  case None
  then show ?thesis using assms by (simp add: activateSchedule_def)
next
  case (Some s)
  show ?thesis
  proof (cases "n \<in> activeSchedules c")
    case True
    then show ?thesis using assms Some by (simp add: activateSchedule_def)
  next
    case False
    note inv = schedule_invD [OF assms]
    have none: "scheduleIntervals c n = None"
      using False inv(5) by blast
    have fresh: "nextHandle c \<notin> fst ` set (intervals c)"
      using inv(3) by fastforce
    have old: "m \<noteq> n" if "(h, m) \<in> set (intervals c)" for h m
      using inv(3) [OF that] none by auto
    let ?c = "snd (activateSchedule n c)"
    have f: "activeSchedules ?c = insert n (activeSchedules c)"
      "intervals ?c = intervals c @ [(nextHandle c, n)]"
      "nextHandle ?c = Suc (nextHandle c)"
      "scheduleIntervals ?c = (scheduleIntervals c)(n \<mapsto> nextHandle c)"
      "schedules ?c = schedules c"
      by (simp_all add: activateSchedule_fresh [OF Some False])
    have 1: "0 < nextHandle ?c" by (simp add: f)
    have 2: "distinct (map fst (intervals ?c))"
      using inv(2) fresh by (simp add: f)
    have 3: "0 < h \<and> h < nextHandle ?c \<and> scheduleIntervals ?c m = Some h"
      if "(h, m) \<in> set (intervals ?c)" for h m
    proof (cases "(h, m) \<in> set (intervals c)")
      case True
      with inv(3) [OF True] old [OF True] show ?thesis by (simp add: f)
    next
      case False
      with that have "h = nextHandle c" "m = n" by (simp_all add: f)
      then show ?thesis using inv(1) by (simp add: f)
    qed
    have 4: "(h, m) \<in> set (intervals ?c)" if "scheduleIntervals ?c m = Some h" for m h
      using that inv(4) [of m h] by (cases "m = n") (simp_all add: f)
    have 5: "m \<in> activeSchedules ?c \<longleftrightarrow> scheduleIntervals ?c m \<noteq> None" for m
      using inv(5) [of m] by (cases "m = n") (simp_all add: f)
    have 6: "schedules ?c m \<noteq> None" if "m \<in> activeSchedules ?c" for m
      using that inv(6) [of m] Some by (cases "m = n") (simp_all add: f)
    show ?thesis
      by (rule schedule_invI) (fact 1 2 3 4 5 6)+
  qed
qed


lemma deactivateSchedule_active:
  assumes "schedule_inv c" "n \<in> activeSchedules c"
  obtains h where "scheduleIntervals c n = Some h" "(h, n) \<in> set (intervals c)"
    "snd (deactivateSchedule n c) =
       c\<lparr>intervals := filter (\<lambda>t. fst t \<noteq> h) (intervals c),
         scheduleIntervals := (scheduleIntervals c)(n := None),
         activeSchedules := activeSchedules c - {n}\<rparr>"
proof -
  note inv = schedule_invD [OF assms(1)]
  from assms(2) inv(5) obtain h where h: "scheduleIntervals c n = Some h" by blast
  have m: "(h, n) \<in> set (intervals c)" by (rule inv(4) [OF h])
  have "0 < h" using inv(3) [OF m] by simp
  then have "snd (deactivateSchedule n c) =
       c\<lparr>intervals := filter (\<lambda>t. fst t \<noteq> h) (intervals c),
         scheduleIntervals := (scheduleIntervals c)(n := None),
         activeSchedules := activeSchedules c - {n}\<rparr>"
    using assms(2) h by (simp add: deactivateSchedule_def clearInterval_def)
  with h m show thesis by (rule that)
qed

lemma schedule_inv_deactivate:
  assumes "schedule_inv c"
  shows "schedule_inv (snd (deactivateSchedule n c))"
proof (cases "n \<in> activeSchedules c")
  case False
  then show ?thesis using assms by (simp add: deactivateSchedule_def)
next
  case True
  note inv = schedule_invD [OF assms]
  let ?c = "snd (deactivateSchedule n c)"
  from deactivateSchedule_active [OF assms True] obtain h where
    h: "scheduleIntervals c n = Some h" and m: "(h, n) \<in> set (intervals c)" and
    r: "?c = c\<lparr>intervals := filter (\<lambda>t. fst t \<noteq> h) (intervals c),
               scheduleIntervals := (scheduleIntervals c)(n := None),
               activeSchedules := activeSchedules c - {n}\<rparr>"
    by blast
  have f: "activeSchedules ?c = activeSchedules c - {n}"
    "intervals ?c = filter (\<lambda>t. fst t \<noteq> h) (intervals c)"
    "nextHandle ?c = nextHandle c"
    "scheduleIntervals ?c = (scheduleIntervals c)(n := None)"
    "schedules ?c = schedules c"
    by (simp_all add: r)
  have 1: "0 < nextHandle ?c" using inv(1) by (simp add: f)
  have 2: "distinct (map fst (intervals ?c))"
    using inv(2) by (simp add: f distinct_map_filter)
  have 3: "0 < k \<and> k < nextHandle ?c \<and> scheduleIntervals ?c j = Some k"
    if "(k, j) \<in> set (intervals ?c)" for k j
  proof -
    from that have old: "(k, j) \<in> set (intervals c)" and ne: "k \<noteq> h" by (simp_all add: f)
    have "j \<noteq> n" using inv(3) [OF old] h ne by auto
    with inv(3) [OF old] show ?thesis by (simp add: f)
  qed
  have 4: "(k, j) \<in> set (intervals ?c)" if "scheduleIntervals ?c j = Some k" for j k
  proof -
    from that have jn: "j \<noteq> n" and old: "scheduleIntervals c j = Some k"
      by (auto simp: f split: if_splits)
    have o: "(k, j) \<in> set (intervals c)" by (rule inv(4) [OF old])
    have "k \<noteq> h"
    proof
      assume "k = h"
      with o m inv(2) have "j = n" by (metis eq_key_imp_eq_value)
      with jn show False by simp
    qed
    with o show ?thesis by (simp add: f)
  qed
  have 5: "j \<in> activeSchedules ?c \<longleftrightarrow> scheduleIntervals ?c j \<noteq> None" for j
    using inv(5) [of j] by (cases "j = n") (simp_all add: f)
  have 6: "schedules ?c j \<noteq> None" if "j \<in> activeSchedules ?c" for j
    using that inv(6) [of j] by (simp add: f)
  show ?thesis
    by (rule schedule_invI) (fact 1 2 3 4 5 6)+
qed

lemma schedule_inv_perform: "schedule_inv c \<Longrightarrow> schedule_inv (perform call c)"
  by (cases call) (simp_all add: schedule_inv_activate schedule_inv_deactivate)

lemma schedule_inv_afterCalls: "schedule_inv c \<Longrightarrow> schedule_inv (afterCalls calls c)"
  unfolding afterCalls_def
  by (induction calls arbitrary: c) (simp_all add: schedule_inv_perform)

lemma evaluators_count:
  assumes "schedule_inv c"
  shows "evaluators n c = (if n \<in> activeSchedules c then 1 else 0)"
proof (cases "n \<in> activeSchedules c")
  case False
  note inv = schedule_invD [OF assms]
  have "scheduleIntervals c n = None" using False inv(5) by blast
  then have "\<forall>t\<in>set (intervals c). snd t \<noteq> n"
    using inv(3) by fastforce
  then have "filter (\<lambda>t. snd t = n) (intervals c) = []"
    by (simp add: filter_empty_conv)
  with False show ?thesis by (simp add: evaluators_def)
next
  case True
  note inv = schedule_invD [OF assms]
  from True inv(5) obtain h where h: "scheduleIntervals c n = Some h" by blast
  have m: "(h, n) \<in> set (intervals c)" by (rule inv(4) [OF h])
  let ?ts = "filter (\<lambda>t. snd t = n) (intervals c)"
  have "t = (h, n)" if "t \<in> set ?ts" for t
  proof -
    obtain k j where t: "t = (k, j)" by (cases t)
    with that have "(k, n) \<in> set (intervals c)" "j = n" by auto
    with inv(3) [of k n] h t show ?thesis by simp
  qed
  moreover have "(h, n) \<in> set ?ts" using m by simp
  ultimately have s: "set ?ts = {(h, n)}" by blast
  have "distinct (intervals c)" using inv(2) by (simp add: distinct_map)
  then have "distinct ?ts" by simp
  then have "card (set ?ts) = length ?ts" by (rule distinct_card)
  then have "length ?ts = 1" unfolding s by simp
  with True show ?thesis by (simp add: evaluators_def)
qed

text \<open>
  Claim C9.  In every state reached from a new controller by any sequence of
  \<open>activateSchedule\<close> and \<open>deactivateSchedule\<close> calls, a schedule name is in the active
  set if and only if exactly one periodic evaluator is registered for it, no name ever has
  more than one, and \<open>activateSchedule\<close> on an active name returns \<open>true\<close> and changes
  nothing.
\<close>

theorem one_evaluator_per_active_schedule:
  "let c = afterCalls calls (newController savedScenes savedSchedules) in
     (name \<in> activeSchedules c \<longleftrightarrow> evaluators name c = 1) \<and>
     evaluators name c \<le> 1 \<and>
     (name \<in> activeSchedules c \<longrightarrow> activateSchedule name c = (True, c))"
proof -
  have inv: "schedule_inv (afterCalls calls (newController savedScenes savedSchedules))"
    by (intro schedule_inv_afterCalls schedule_inv_new)
  show ?thesis
    unfolding Let_def
    by (simp add: evaluators_count [OF inv] activateSchedule_active [OF inv])
qed

theorem one_evaluator_per_active_schedule_witness:
  "''Morning'' \<in> activeSchedules
      (afterCalls [Activate ''Morning'', Activate ''Morning'']
         (newController Map.empty [''Morning'' \<mapsto> morningSchedule])) \<and>
   evaluators ''Morning''
      (afterCalls [Activate ''Morning'', Activate ''Morning'']
         (newController Map.empty [''Morning'' \<mapsto> morningSchedule])) = 1 \<and>
   activateSchedule ''Morning''
      (afterCalls [Activate ''Morning'', Activate ''Morning'']
         (newController Map.empty [''Morning'' \<mapsto> morningSchedule])) =
     (True, afterCalls [Activate ''Morning'', Activate ''Morning'']
         (newController Map.empty [''Morning'' \<mapsto> morningSchedule]))"
proof -
  have a: "''Morning'' \<in> activeSchedules
      (afterCalls [Activate ''Morning'', Activate ''Morning'']
         (newController Map.empty [''Morning'' \<mapsto> morningSchedule]))"
    by (simp add: afterCalls_def activateSchedule_def setInterval_def newController_def)
  show ?thesis
    using one_evaluator_per_active_schedule
            [where name = "''Morning''" and calls = "[Activate ''Morning'', Activate ''Morning'']"
               and savedScenes = Map.empty
               and savedSchedules = "[''Morning'' \<mapsto> morningSchedule]"] a
    by (simp add: Let_def)
qed

section \<open>Properties of discovery\<close>

lemma settle_simps:
  "settle outcome Pending = outcome" "settle outcome Resolved = Resolved"
  "settle outcome (Rejected r) = Rejected r"
  by (simp_all add: settle_def)

lemma ctl_sends [simp]:
  "isInitialized (foldl (\<lambda>c i. sendWSData (f i) c) c is) = isInitialized c"
  "lights (foldl (\<lambda>c i. sendWSData (f i) c) c is) = lights c"
  by (induction "is" arbitrary: c) (simp_all add: sendWSData_def)

lemma lightCountHandler_fields:
  "countListener (lightCountHandler r d) = False"
  "timerPending (lightCountHandler r d) = timerPending d"
  "lights (ctl (lightCountHandler r d)) = lights (ctl d)"
  "isInitialized (ctl (lightCountHandler r d)) = (isInitialized (ctl d) \<or> r = Some 0)"
  "promise (lightCountHandler r d) = (if r = Some 0 then settle Resolved (promise d) else promise d)"
  "totalLights (lightCountHandler r d) = r"
  "receivedCount (lightCountHandler r d) = 0"
  "objectListeners (lightCountHandler r d) =
     (case r of None \<Rightarrow> objectListeners d
      | Some n \<Rightarrow> if n = 0 then objectListeners d else objectListeners d @ [0..<nat n])"
  by (auto simp: lightCountHandler_def Let_def split: option.splits)

lemma lightObjectHandler_None: "lightObjectHandler None d = d"
  by (simp add: lightObjectHandler_def)

lemma lightObjectHandler_fields:
  "countListener (lightObjectHandler (Some obj) d) = countListener d"
  "timerPending (lightObjectHandler (Some obj) d) = timerPending d"
  "objectListeners (lightObjectHandler (Some obj) d) = objectListeners d"
  "totalLights (lightObjectHandler (Some obj) d) = totalLights d"
  "receivedCount (lightObjectHandler (Some obj) d) = Suc (receivedCount d)"
  "lights (ctl (lightObjectHandler (Some obj) d)) =
     AList.update (object_index obj) (lightData obj) (lights (ctl d))"
  "isInitialized (ctl (lightObjectHandler (Some obj) d)) =
     (isInitialized (ctl d) \<or> Some (int (Suc (receivedCount d))) = totalLights d)"
  "promise (lightObjectHandler (Some obj) d) =
     (if Some (int (Suc (receivedCount d))) = totalLights d
      then settle Resolved (promise d) else promise d)"
  by (simp_all add: lightObjectHandler_def Let_def)

lemma deliver_timeout_fields:
  "countListener (deliver TIMEOUT_10s d) = countListener d"
  "timerPending (deliver TIMEOUT_10s d) = False"
  "objectListeners (deliver TIMEOUT_10s d) = objectListeners d"
  "totalLights (deliver TIMEOUT_10s d) = totalLights d"
  "receivedCount (deliver TIMEOUT_10s d) = receivedCount d"
  "ctl (deliver TIMEOUT_10s d) = ctl d"
  "promise (deliver TIMEOUT_10s d) =
     (if timerPending d \<and> \<not> isInitialized (ctl d)
      then settle (Rejected ''INIT_TIMEOUT'') (promise d) else promise d)"
  by (simp_all add: Let_def)


lemma run_simps:
  "run [] d = d" "run (e # es) d = run es (deliver e d)" "run (xs @ ys) d = run ys (run xs d)"
  by (simp_all add: run_def)

lemma timerPending_deliver:
  "timerPending (deliver e d) \<longleftrightarrow> timerPending d \<and> e \<noteq> TIMEOUT_10s"
proof (cases e)
  case (GET_LIGHT_COUNT r)
  then show ?thesis by (simp add: lightCountHandler_fields)
next
  case (GET_LIGHT_OBJECT i p)
  then show ?thesis
    by (cases p) (simp_all add: lightObjectHandler_None lightObjectHandler_fields)
next
  case TIMEOUT_10s
  then show ?thesis by (simp add: Let_def)
qed

lemma timerPending_run:
  "timerPending (run es d) \<longleftrightarrow> timerPending d \<and> TIMEOUT_10s \<notin> set es"
  by (induction es arbitrary: d) (auto simp: run_simps timerPending_deliver)

lemma initialize_fields:
  "countListener (initialize c)" "objectListeners (initialize c) = []"
  "timerPending (initialize c)" "promise (initialize c) = Pending"
  "lights (ctl (initialize c)) = lights c"
  "isInitialized (ctl (initialize c)) = isInitialized c"
  by (simp_all add: initialize_def sendWSData_def)

lemma discovery_inv_initialize:
  "\<not> isInitialized c \<Longrightarrow> discovery_inv (initialize c)"
  by (simp add: discovery_inv_def initialize_fields)

lemma discovery_inv_deliver:
  assumes "discovery_inv d"
  shows "discovery_inv (deliver e d)"
proof -
  from assms have A: "countListener d \<Longrightarrow> objectListeners d = [] \<and> \<not> isInitialized (ctl d)"
    and B: "objectListeners d \<noteq> [] \<Longrightarrow> \<not> isInitialized (ctl d) \<and>
        (\<exists>n. totalLights d = Some n \<and>
             int (receivedCount d) + int (length (objectListeners d)) \<le> n)"
    and C: "\<not> isInitialized (ctl d) \<Longrightarrow>
        promise d = (if timerPending d then Pending else Rejected ''INIT_TIMEOUT'')"
    unfolding discovery_inv_def by blast+
  show ?thesis
  proof (cases e)
    case TIMEOUT_10s
    show ?thesis
      unfolding discovery_inv_def TIMEOUT_10s deliver_timeout_fields
      using A B C by (auto simp: settle_simps)
  next
    case (GET_LIGHT_COUNT r)
    show ?thesis
    proof (cases "countListener d")
      case False
      then show ?thesis using assms by (simp add: GET_LIGHT_COUNT)
    next
      case True
      note A' = A [OF True]
      have e: "deliver e d = lightCountHandler r d"
        by (simp add: GET_LIGHT_COUNT True)
      show ?thesis
        unfolding discovery_inv_def e lightCountHandler_fields
        using A' C by (auto split: option.splits)
    qed
  next
    case (GET_LIGHT_OBJECT i p)
    show ?thesis
    proof (cases "i \<in> set (objectListeners d)")
      case False
      then show ?thesis using assms by (simp add: GET_LIGHT_OBJECT)
    next
      case True
      then have ne: "objectListeners d \<noteq> []" by auto
      from B [OF ne] obtain n where ni: "\<not> isInitialized (ctl d)"
        and n: "totalLights d = Some n"
        and le: "int (receivedCount d) + int (length (objectListeners d)) \<le> n"
        by blast
      have cl: "\<not> countListener d" using A ne by blast
      let ?d = "d\<lparr>objectListeners := remove1 i (objectListeners d)\<rparr>"
      have pos: "0 < length (objectListeners d)" using ne by simp
      have lenn: "length (remove1 i (objectListeners d)) = length (objectListeners d) - 1"
        using True by (simp add: length_remove1)
      have two: "2 \<le> length (objectListeners d)" if "remove1 i (objectListeners d) \<noteq> []"
        using that lenn by (cases "remove1 i (objectListeners d)") simp_all
      from lenn have len: "int (length (remove1 i (objectListeners d))) =
                      int (length (objectListeners d)) - 1"
        using pos by (cases "objectListeners d") simp_all
      show ?thesis
      proof (cases p)
        case None
        have e: "deliver e d = ?d"
          by (simp add: GET_LIGHT_OBJECT True None lightObjectHandler_None)
        show ?thesis
          unfolding discovery_inv_def e
          using cl ni n le len C by auto
      next
        case (Some obj)
        have e: "deliver e d = lightObjectHandler (Some obj) ?d"
          by (simp add: GET_LIGHT_OBJECT True Some)
        show ?thesis
          unfolding discovery_inv_def e lightObjectHandler_fields
          using cl ni n le len pos C two by (auto simp: settle_simps)
      qed
    qed
  qed
qed

lemma discovery_inv_run: "discovery_inv d \<Longrightarrow> discovery_inv (run es d)"
  by (induction es arbitrary: d) (simp_all add: run_simps discovery_inv_deliver)


lemma short_of_total_deliver:
  assumes "short_of_total d"
  shows "short_of_total (deliver e d)"
proof -
  from assms obtain n where cl: "\<not> countListener d" and ni: "\<not> isInitialized (ctl d)"
    and n: "totalLights d = Some n"
    and lt: "int (receivedCount d) + int (length (objectListeners d)) < n"
    unfolding short_of_total_def by blast
  show ?thesis
  proof (cases e)
    case TIMEOUT_10s
    show ?thesis
      unfolding short_of_total_def TIMEOUT_10s deliver_timeout_fields
      using cl ni n lt by simp
  next
    case (GET_LIGHT_COUNT r)
    then show ?thesis using assms cl by simp
  next
    case (GET_LIGHT_OBJECT i p)
    show ?thesis
    proof (cases "i \<in> set (objectListeners d)")
      case False
      then show ?thesis using assms by (simp add: GET_LIGHT_OBJECT)
    next
      case True
      then have pos: "0 < length (objectListeners d)" by (cases "objectListeners d") auto
      have lenn: "length (remove1 i (objectListeners d)) = length (objectListeners d) - 1"
        using True by (simp add: length_remove1)
      then have len: "int (length (remove1 i (objectListeners d))) =
                      int (length (objectListeners d)) - 1"
        using pos by (cases "objectListeners d") simp_all
      let ?d = "d\<lparr>objectListeners := remove1 i (objectListeners d)\<rparr>"
      show ?thesis
      proof (cases p)
        case None
        have e: "deliver e d = ?d"
          by (simp add: GET_LIGHT_OBJECT True None lightObjectHandler_None)
        show ?thesis
          unfolding short_of_total_def e using cl ni n lt len by simp
      next
        case (Some obj)
        have e: "deliver e d = lightObjectHandler (Some obj) ?d"
          by (simp add: GET_LIGHT_OBJECT True Some)
        show ?thesis
          unfolding short_of_total_def e lightObjectHandler_fields
          using cl ni n lt len pos by auto
      qed
    qed
  qed
qed

lemma short_of_total_run: "short_of_total d \<Longrightarrow> short_of_total (run es d)"
  by (induction es arbitrary: d) (simp_all add: run_simps short_of_total_deliver)

lemma parse_failure_short:
  assumes "discovery_inv d" "i \<in> set (objectListeners d)"
  shows "short_of_total (deliver (GET_LIGHT_OBJECT i None) d)"
proof -
  from assms(2) have ne: "objectListeners d \<noteq> []" by auto
  from assms(1) ne have cl: "\<not> countListener d" and ni: "\<not> isInitialized (ctl d)"
    and ex: "\<exists>n. totalLights d = Some n \<and>
             int (receivedCount d) + int (length (objectListeners d)) \<le> n"
    unfolding discovery_inv_def by blast+
  have "length (remove1 i (objectListeners d)) = length (objectListeners d) - 1"
    using assms(2) by (simp add: length_remove1)
  then have len: "int (length (remove1 i (objectListeners d))) =
                  int (length (objectListeners d)) - 1"
    using ne by (cases "objectListeners d") simp_all
  show ?thesis
    unfolding short_of_total_def
    using assms(2) cl ni ex len by (auto simp: lightObjectHandler_None)
qed

lemma parse_failure_unchanged:
  "lights (ctl (deliver (GET_LIGHT_OBJECT i None) d)) = lights (ctl d)"
  "promise (deliver (GET_LIGHT_OBJECT i None) d) = promise d"
  "isInitialized (ctl (deliver (GET_LIGHT_OBJECT i None) d)) = isInitialized (ctl d)"
  by (simp_all add: lightObjectHandler_None)

lemma object_inserted:
  assumes "j \<in> set (objectListeners d)"
  shows "map_of (lights (ctl (deliver (GET_LIGHT_OBJECT j (Some obj)) d))) (object_index obj) =
           Some (lightData obj)"
  using assms by (simp add: lightObjectHandler_fields update_conv)

lemma new_not_initialized: "\<not> isInitialized (newController savedScenes savedSchedules)"
  "lights (newController savedScenes savedSchedules) = []"
  by (simp_all add: newController_def)

text \<open>
  Claim C1, amended.  In a discovery started on a new controller, a reply for object
  \<open>i\<close> that fails to parse while its listener is registered is swallowed: the registry
  and the promise are as before that reply, and a later well-formed reply for another
  awaited object is still inserted.  But the failed reply is never counted, so from then
  on the controller never becomes initialized and the promise is never resolved: it stays
  pending until the 10-second timer fires and is rejected with \<open>INIT_TIMEOUT\<close> once it
  has fired.
\<close>

theorem parse_failure_blocks_ready:
  "let d = run before (initialize (newController savedScenes savedSchedules));
       d1 = deliver (GET_LIGHT_OBJECT i None) d;
       d2 = run after d1
   in i \<in> set (objectListeners d) \<longrightarrow>
        lights (ctl d1) = lights (ctl d) \<and> promise d1 = promise d \<and>
        (\<forall>j obj. j \<in> set (objectListeners d1) \<longrightarrow>
           map_of (lights (ctl (deliver (GET_LIGHT_OBJECT j (Some obj)) d1))) (object_index obj) =
             Some (lightData obj)) \<and>
        \<not> isInitialized (ctl d2) \<and> promise d2 \<noteq> Resolved \<and>
        promise d2 =
          (if TIMEOUT_10s \<in> set (before @ after) then Rejected ''INIT_TIMEOUT'' else Pending)"
proof -
  define d0 where "d0 = initialize (newController savedScenes savedSchedules)"
  define d where "d = run before d0"
  define d1 where "d1 = deliver (GET_LIGHT_OBJECT i None) d"
  define d2 where "d2 = run after d1"
  have inv0: "discovery_inv d0"
    unfolding d0_def by (rule discovery_inv_initialize) (rule new_not_initialized)
  have inv: "discovery_inv d" unfolding d_def by (rule discovery_inv_run [OF inv0])
  have main: "\<not> isInitialized (ctl d2) \<and> promise d2 \<noteq> Resolved \<and>
        promise d2 =
          (if TIMEOUT_10s \<in> set (before @ after) then Rejected ''INIT_TIMEOUT'' else Pending)"
    if i: "i \<in> set (objectListeners d)"
  proof -
    have "short_of_total d1" unfolding d1_def by (rule parse_failure_short [OF inv i])
    then have "short_of_total d2" unfolding d2_def by (rule short_of_total_run)
    then have ni: "\<not> isInitialized (ctl d2)" by (simp add: short_of_total_def)
    have "discovery_inv d2"
      unfolding d2_def d1_def by (intro discovery_inv_run discovery_inv_deliver inv)
    with ni have p: "promise d2 = (if timerPending d2 then Pending else Rejected ''INIT_TIMEOUT'')"
      by (simp add: discovery_inv_def)
    have t: "timerPending d2 \<longleftrightarrow> TIMEOUT_10s \<notin> set (before @ after)"
      unfolding d2_def d1_def d_def d0_def
      by (simp add: timerPending_run timerPending_deliver initialize_fields del: deliver.simps)
    show ?thesis using ni p t by auto
  qed
  have c1: "lights (ctl d1) = lights (ctl d)" "promise d1 = promise d"
    unfolding d1_def by (rule parse_failure_unchanged)+
  have c3: "map_of (lights (ctl (deliver (GET_LIGHT_OBJECT j (Some obj)) d1))) (object_index obj) =
              Some (lightData obj)"
    if "j \<in> set (objectListeners d1)" for j obj
    using that by (rule object_inserted)
  show ?thesis
    unfolding Let_def d0_def [symmetric] d_def [symmetric] d1_def [symmetric] d2_def [symmetric]
    using c1 c3 main by blast
qed

lemma count_two_listeners:
  "objectListeners (run [GET_LIGHT_COUNT (Some 2)] (initialize (newController Map.empty Map.empty)))
     = [0, 1]"
proof -
  have "[0..<nat 2] = [0, 1]" by (simp add: upt_rec)
  then show ?thesis
    by (simp add: run_simps initialize_fields lightCountHandler_fields)
qed

theorem parse_failure_blocks_ready_witness:
  "1 \<in> set (objectListeners
            (run [GET_LIGHT_COUNT (Some 2)] (initialize (newController Map.empty Map.empty)))) \<and>
   promise (run [GET_LIGHT_OBJECT 0 (Some ceilingObject), TIMEOUT_10s]
             (deliver (GET_LIGHT_OBJECT 1 None)
               (run [GET_LIGHT_COUNT (Some 2)] (initialize (newController Map.empty Map.empty)))))
     = Rejected ''INIT_TIMEOUT''"
proof -
  have m: "1 \<in> set (objectListeners
            (run [GET_LIGHT_COUNT (Some 2)] (initialize (newController Map.empty Map.empty))))"
    unfolding count_two_listeners by simp
  have t: "TIMEOUT_10s \<in> set ([GET_LIGHT_COUNT (Some 2)] @
                                 [GET_LIGHT_OBJECT 0 (Some ceilingObject), TIMEOUT_10s])"
    by simp
  from parse_failure_blocks_ready
         [where before = "[GET_LIGHT_COUNT (Some 2)]" and i = 1
            and after = "[GET_LIGHT_OBJECT 0 (Some ceilingObject), TIMEOUT_10s]"
            and savedScenes = Map.empty and savedSchedules = Map.empty]
  have "promise (run [GET_LIGHT_OBJECT 0 (Some ceilingObject), TIMEOUT_10s]
             (deliver (GET_LIGHT_OBJECT 1 None)
               (run [GET_LIGHT_COUNT (Some 2)] (initialize (newController Map.empty Map.empty)))))
     = Rejected ''INIT_TIMEOUT''"
    unfolding Let_def using m t by (simp only: if_True)
  with m show ?thesis by (rule conjI)
qed

text \<open>
  Claim C1, as stated, fails: the controller announces two lights, object 0 parses and is
  inserted, object 1 fails to parse, the timer fires; the promise is rejected with
  \<open>INIT_TIMEOUT\<close>, although the registry holds the device that parsed.
\<close>

theorem parse_failure_rejects_discovery:
  "promise (run [GET_LIGHT_COUNT (Some 2), GET_LIGHT_OBJECT 0 (Some ceilingObject),
                 GET_LIGHT_OBJECT 1 None, TIMEOUT_10s]
              (initialize (newController Map.empty Map.empty))) = Rejected ''INIT_TIMEOUT'' \<and>
   map fst (lights (ctl (run [GET_LIGHT_COUNT (Some 2), GET_LIGHT_OBJECT 0 (Some ceilingObject),
                              GET_LIGHT_OBJECT 1 None, TIMEOUT_10s]
              (initialize (newController Map.empty Map.empty))))) = [3]"
proof -
  define d0 where "d0 = initialize (newController Map.empty Map.empty)"
  define d1 where "d1 = deliver (GET_LIGHT_COUNT (Some 2)) d0"
  define d2 where "d2 = deliver (GET_LIGHT_OBJECT 0 (Some ceilingObject)) d1"
  define d3 where "d3 = deliver (GET_LIGHT_OBJECT 1 None) d2"
  define d4 where "d4 = deliver TIMEOUT_10s d3"
  have u: "[0..<nat 2] = [0, 1]" by (simp add: upt_rec)
  have f0: "countListener d0" "timerPending d0" "promise d0 = Pending" "lights (ctl d0) = []"
    "\<not> isInitialized (ctl d0)"
    unfolding d0_def by (simp_all add: initialize_fields new_not_initialized)
  have e1: "d1 = lightCountHandler (Some 2) d0" unfolding d1_def using f0 by simp
  have f1: "objectListeners d1 = [0, 1]" "timerPending d1" "promise d1 = Pending"
    "lights (ctl d1) = []" "\<not> isInitialized (ctl d1)" "totalLights d1 = Some 2"
    "receivedCount d1 = 0"
    unfolding e1 lightCountHandler_fields using f0 u
    by (simp_all add: initialize_fields d0_def)
  have e2: "d2 = lightObjectHandler (Some ceilingObject) (d1\<lparr>objectListeners := [1]\<rparr>)"
    unfolding d2_def using f1 by simp
  have f2: "objectListeners d2 = [1]" "timerPending d2" "promise d2 = Pending"
    "lights (ctl d2) = [(3, lightData ceilingObject)]" "\<not> isInitialized (ctl d2)"
    unfolding e2 lightObjectHandler_fields using f1 by (simp_all add: ceilingObject_def)
  have e3: "d3 = d2\<lparr>objectListeners := []\<rparr>"
    unfolding d3_def using f2 by (simp add: lightObjectHandler_None)
  have f3: "timerPending d3" "promise d3 = Pending"
    "lights (ctl d3) = [(3, lightData ceilingObject)]" "\<not> isInitialized (ctl d3)"
    unfolding e3 using f2 by simp_all
  have f4: "promise d4 = Rejected ''INIT_TIMEOUT''" "lights (ctl d4) = [(3, lightData ceilingObject)]"
    unfolding d4_def deliver_timeout_fields using f3 by (simp_all add: settle_simps)
  have r: "run [GET_LIGHT_COUNT (Some 2), GET_LIGHT_OBJECT 0 (Some ceilingObject),
                GET_LIGHT_OBJECT 1 None, TIMEOUT_10s]
              (initialize (newController Map.empty Map.empty)) = d4"
    unfolding run_simps d4_def d3_def d2_def d1_def d0_def by (rule refl)
  show ?thesis unfolding r using f4 by simp
qed

lemma waiting_deliver:
  assumes "countListener d" "objectListeners d = []" "promise d = Pending"
    "(\<exists>i parsed. e = GET_LIGHT_OBJECT i parsed) \<or> (e = TIMEOUT_10s \<and> isInitialized (ctl d))"
  shows "countListener (deliver e d) \<and> objectListeners (deliver e d) = [] \<and>
         promise (deliver e d) = Pending \<and> ctl (deliver e d) = ctl d"
  using assms by (auto simp: Let_def)

lemma waiting_run:
  assumes "countListener d" "objectListeners d = []" "promise d = Pending"
    "\<forall>e\<in>set es. (\<exists>i parsed. e = GET_LIGHT_OBJECT i parsed) \<or>
                  (e = TIMEOUT_10s \<and> isInitialized (ctl d))"
  shows "countListener (run es d) \<and> objectListeners (run es d) = [] \<and>
         promise (run es d) = Pending \<and> ctl (run es d) = ctl d"
  using assms
proof (induction es arbitrary: d)
  case Nil
  then show ?case by (simp add: run_simps)
next
  case (Cons e es)
  have e: "(\<exists>i parsed. e = GET_LIGHT_OBJECT i parsed) \<or> (e = TIMEOUT_10s \<and> isInitialized (ctl d))"
    using Cons.prems(4) by simp
  note step = waiting_deliver [OF Cons.prems(1-3) e]
  have "\<forall>x\<in>set es. (\<exists>i parsed. x = GET_LIGHT_OBJECT i parsed) \<or>
                  (x = TIMEOUT_10s \<and> isInitialized (ctl (deliver e d)))"
    using Cons.prems(4) step by simp
  from Cons.IH [OF step [THEN conjunct1] step [THEN conjunct2, THEN conjunct1]
                  step [THEN conjunct2, THEN conjunct2, THEN conjunct1] this]
  show ?case unfolding run_simps using step by simp
qed

lemma ready_deliver:
  assumes "promise d = Resolved" "\<not> countListener d" "objectListeners d = []"
    "isInitialized (ctl d)"
  shows "promise (deliver e d) = Resolved \<and> \<not> countListener (deliver e d) \<and>
         objectListeners (deliver e d) = [] \<and> isInitialized (ctl (deliver e d)) \<and>
         lights (ctl (deliver e d)) = lights (ctl d)"
  using assms by (cases e) (simp_all add: Let_def)

lemma ready_run:
  assumes "promise d = Resolved" "\<not> countListener d" "objectListeners d = []"
    "isInitialized (ctl d)"
  shows "promise (run es d) = Resolved \<and> isInitialized (ctl (run es d)) \<and>
         lights (ctl (run es d)) = lights (ctl d)"
  using assms
proof (induction es arbitrary: d)
  case Nil
  then show ?case by (simp add: run_simps)
next
  case (Cons e es)
  from ready_deliver [OF Cons.prems, of e] Cons.IH [of "deliver e d"]
  show ?case unfolding run_simps by metis
qed

lemma zero_count_run:
  assumes "\<forall>e\<in>set before. (\<exists>i parsed. e = GET_LIGHT_OBJECT i parsed) \<or>
                          (e = TIMEOUT_10s \<and> isInitialized c)"
  shows "promise (run (before @ GET_LIGHT_COUNT (Some 0) # after) (initialize c)) = Resolved"
    "isInitialized (ctl (run (before @ GET_LIGHT_COUNT (Some 0) # after) (initialize c)))"
    "lights (ctl (run (before @ GET_LIGHT_COUNT (Some 0) # after) (initialize c))) = lights c"
proof -
  define d0 where "d0 = run before (initialize c)"
  define d1 where "d1 = lightCountHandler (Some 0) d0"
  have b: "\<forall>e\<in>set before. (\<exists>i parsed. e = GET_LIGHT_OBJECT i parsed) \<or>
                          (e = TIMEOUT_10s \<and> isInitialized (ctl (initialize c)))"
    using assms by (simp add: initialize_fields)
  have w: "countListener d0 \<and> objectListeners d0 = [] \<and> promise d0 = Pending \<and>
           ctl d0 = ctl (initialize c)"
    unfolding d0_def
    by (rule waiting_run [OF initialize_fields(1) initialize_fields(2) initialize_fields(4) b])
  have f1: "promise d1 = Resolved" "\<not> countListener d1" "objectListeners d1 = []"
    "isInitialized (ctl d1)" "lights (ctl d1) = lights c"
    unfolding d1_def lightCountHandler_fields using w
    by (simp_all add: settle_simps initialize_fields)
  have r: "run (before @ GET_LIGHT_COUNT (Some 0) # after) (initialize c) = run after d1"
    using w by (simp add: run_simps d1_def d0_def)
  show "promise (run (before @ GET_LIGHT_COUNT (Some 0) # after) (initialize c)) = Resolved"
    "isInitialized (ctl (run (before @ GET_LIGHT_COUNT (Some 0) # after) (initialize c)))"
    "lights (ctl (run (before @ GET_LIGHT_COUNT (Some 0) # after) (initialize c))) = lights c"
    unfolding r using ready_run [OF f1(1-4), of after] f1(5) by simp_all
qed

text \<open>
  Claim C3, as stated, fails where it promises an empty registry: \<open>initialize\<close> never
  clears the registry, so when discovery is run again on the installation (as
  \<open>refreshLights\<close> does) and the count reply is 0, the promise resolves while the
  registry still holds the two devices found before.
\<close>

theorem zero_count_keeps_registry:
  "promise (run [GET_LIGHT_COUNT (Some 0)] (initialize demoController)) = Resolved \<and>
   map fst (lights (ctl (run [GET_LIGHT_COUNT (Some 0)] (initialize demoController)))) = [3, 5]"
  by (simp add: run_simps initialize_fields lightCountHandler_fields settle_simps
      demoController_def)

text \<open>
  Claim C3, amended.  In one call of \<open>initialize\<close>, once the count reply 0 is delivered
  (before it only stray object replies, which find no listener, or, on a controller that
  was initialized already, the 10-second timer), the promise is resolved and the
  controller is initialized, and this stays so whatever arrives afterwards, the
  10-second timer included: the promise is never rejected.  The registry is left as it
  was when the call started: it is empty on a new controller, and it keeps the devices of
  an earlier discovery otherwise.
\<close>

theorem zero_count_resolves:
  "let d = run (before @ GET_LIGHT_COUNT (Some 0) # after) (initialize c)
   in (\<forall>e\<in>set before. (\<exists>i parsed. e = GET_LIGHT_OBJECT i parsed) \<or>
                          (e = TIMEOUT_10s \<and> isInitialized c)) \<longrightarrow>
        promise d = Resolved \<and> isInitialized (ctl d) \<and> lights (ctl d) = lights c \<and>
        (c = newController savedScenes savedSchedules \<longrightarrow> lights (ctl d) = [])"
  unfolding Let_def
  by (intro impI conjI) (simp_all add: zero_count_run new_not_initialized)

theorem zero_count_resolves_witness:
  "promise (run ([GET_LIGHT_OBJECT 0 None] @ GET_LIGHT_COUNT (Some 0) #
                 [TIMEOUT_10s, GET_LIGHT_OBJECT 0 (Some ceilingObject)])
              (initialize (newController Map.empty Map.empty))) = Resolved \<and>
   lights (ctl (run ([GET_LIGHT_OBJECT 0 None] @ GET_LIGHT_COUNT (Some 0) #
                 [TIMEOUT_10s, GET_LIGHT_OBJECT 0 (Some ceilingObject)])
              (initialize (newController Map.empty Map.empty)))) = [] \<and>
   isInitialized demoController \<and>
   promise (run ([TIMEOUT_10s] @ GET_LIGHT_COUNT (Some 0) # [])
              (initialize demoController)) = Resolved \<and>
   lights (ctl (run ([TIMEOUT_10s] @ GET_LIGHT_COUNT (Some 0) # [])
              (initialize demoController))) = [(3, ceilingDimmer), (5, porchSwitch)]"
proof -
  have i: "isInitialized demoController"
    "lights demoController = [(3, ceilingDimmer), (5, porchSwitch)]"
    by (simp_all add: demoController_def)
  show ?thesis
    using zero_count_resolves
            [where before = "[GET_LIGHT_OBJECT 0 None]"
               and after = "[TIMEOUT_10s, GET_LIGHT_OBJECT 0 (Some ceilingObject)]"
               and c = "newController Map.empty Map.empty"
               and savedScenes = Map.empty and savedSchedules = Map.empty]
          zero_count_resolves
            [where before = "[TIMEOUT_10s]" and after = "[]" and c = demoController
               and savedScenes = Map.empty and savedSchedules = Map.empty]
    unfolding Let_def by (simp add: i new_not_initialized)
qed

end
